theory Spec2Isabelle
  imports Complex_Main "HOL-Library.Word"
begin

section \<open>Elements, panics and the iteration protocol\<close>

text \<open>
  The terminal operators of \<^verbatim>\<open>result.go\<close> work on values of Go's empty interface.
  The embedding covers \<^verbatim>\<open>nil\<close>, the five signed and the five unsigned integer types
  (\<^verbatim>\<open>int\<close> and \<^verbatim>\<open>uint\<close> at 64 bits), booleans and strings. Two such values are equal
  under Go's \<^verbatim>\<open>==\<close> exactly when they have the same dynamic type and the same value, which
  is equality of the datatype. Floating-point elements are not among the modelled values.
\<close>

datatype val =
    VNil
  | VInt "64 word"
  | VInt8 "8 word"
  | VInt16 "16 word"
  | VInt32 "32 word"
  | VInt64 "64 word"
  | VUint "64 word"
  | VUint8 "8 word"
  | VUint16 "16 word"
  | VUint32 "32 word"
  | VUint64 "64 word"
  | VBool bool
  | VString string

text \<open>
  A Go panic is a value: every operator that can panic returns a sum, \<open>Inl\<close> the panic.
  The error with which the typed operators panic names the operator and the parameter.
\<close>

datatype generic_error =
    NotAFunction string string
  | InvalidSignature string string

datatype panic =
    GenericFuncError generic_error
  | InterfaceConversion
  | ReflectPanic
  | SendOnClosedChannel
  | CloseOfClosedChannel

text \<open>
  A Go function value of type \<^verbatim>\<open>func(interface{}) bool\<close> either returns a boolean or
  panics. \<open>returns f\<close> is the predicate that never panics and computes \<open>f\<close>.
\<close>

type_synonym predicate = "val \<Rightarrow> panic + bool"

definition returns :: "(val \<Rightarrow> bool) \<Rightarrow> predicate" where
  "returns f item = Inr (f item)"

text \<open>
  Modelled from the spec: the types \<^verbatim>\<open>Query\<close> and \<^verbatim>\<open>Iterator\<close> are declared outside
  \<^verbatim>\<open>result.go\<close>. Following the data model of the specification, a cursor yields
  \<open>(item, ok)\<close> pairs, is single-pass, and once exhausted keeps answering \<open>ok = False\<close>
  (with Go's zero value \<^verbatim>\<open>nil\<close> as the item). The state of a cursor over a finite
  sequence is the list of elements it has not yet yielded; \<open>Iterate q\<close> is the fresh cursor
  that \<^verbatim>\<open>q.Iterate()\<close> returns.
\<close>

type_synonym Iterator = "val list"

record Query =
  Iterate :: Iterator

fun next_item :: "Iterator \<Rightarrow> (val \<times> bool) \<times> Iterator" where
  "next_item [] = ((VNil, False), [])"
| "next_item (item # rest) = ((item, True), rest)"

text \<open>
  Every loop over a cursor has the shape
  \<^verbatim>\<open>for item, ok := next(); ok; item, ok = next() { body }\<close>.
  In the loop functions below the equation for \<open>[]\<close> is the call of \<^verbatim>\<open>next\<close> that
  answers \<open>ok = False\<close> and the equation for \<open>item # rest\<close> is one that answers
  \<open>ok = True\<close> and leaves the cursor at \<open>rest\<close>. The operators whose contract says how far
  they scan return their result together with the state in which they leave the cursor, so
  that the elements they never pulled are visible.
\<close>

section \<open>Existence checks\<close>

fun All_loop :: "predicate \<Rightarrow> Iterator \<Rightarrow> (panic + bool) \<times> Iterator" where
  "All_loop predicate [] = (Inr True, [])"
| "All_loop predicate (item # rest) =
     (case predicate item of
        Inl e \<Rightarrow> (Inl e, rest)
      | Inr b \<Rightarrow> if \<not> b then (Inr False, rest) else All_loop predicate rest)"

definition All_op :: "Query \<Rightarrow> predicate \<Rightarrow> (panic + bool) \<times> Iterator" where
  "All_op q predicate = All_loop predicate (Iterate q)"

fun AnyWith_loop :: "predicate \<Rightarrow> Iterator \<Rightarrow> (panic + bool) \<times> Iterator" where
  "AnyWith_loop predicate [] = (Inr False, [])"
| "AnyWith_loop predicate (item # rest) =
     (case predicate item of
        Inl e \<Rightarrow> (Inl e, rest)
      | Inr b \<Rightarrow> if b then (Inr True, rest) else AnyWith_loop predicate rest)"

definition AnyWith :: "Query \<Rightarrow> predicate \<Rightarrow> (panic + bool) \<times> Iterator" where
  "AnyWith q predicate = AnyWith_loop predicate (Iterate q)"

section \<open>Selection of one element\<close>

definition First :: "Query \<Rightarrow> val \<times> Iterator" where
  "First q = (case next_item (Iterate q) of ((item, _), it) \<Rightarrow> (item, it))"

fun FirstWith_loop :: "predicate \<Rightarrow> Iterator \<Rightarrow> (panic + val) \<times> Iterator" where
  "FirstWith_loop predicate [] = (Inr VNil, [])"
| "FirstWith_loop predicate (item # rest) =
     (case predicate item of
        Inl e \<Rightarrow> (Inl e, rest)
      | Inr b \<Rightarrow> if b then (Inr item, rest) else FirstWith_loop predicate rest)"

definition FirstWith :: "Query \<Rightarrow> predicate \<Rightarrow> (panic + val) \<times> Iterator" where
  "FirstWith q predicate = FirstWith_loop predicate (Iterate q)"

text \<open>
  The loop of \<^verbatim>\<open>SingleWith\<close> carries the local \<^verbatim>\<open>found\<close> and the named result \<^verbatim>\<open>r\<close>,
  which starts as \<^verbatim>\<open>nil\<close>.
\<close>

fun SingleWith_loop :: "predicate \<Rightarrow> bool \<Rightarrow> val \<Rightarrow> Iterator \<Rightarrow> (panic + val) \<times> Iterator" where
  "SingleWith_loop predicate found r [] = (Inr r, [])"
| "SingleWith_loop predicate found r (item # rest) =
     (case predicate item of
        Inl e \<Rightarrow> (Inl e, rest)
      | Inr b \<Rightarrow>
          if b then
            (if found then (Inr VNil, rest)
             else SingleWith_loop predicate True item rest)
          else SingleWith_loop predicate found r rest)"

definition SingleWith :: "Query \<Rightarrow> predicate \<Rightarrow> (panic + val) \<times> Iterator" where
  "SingleWith q predicate = SingleWith_loop predicate False VNil (Iterate q)"

section \<open>Pairwise comparison\<close>

text \<open>
  \<^verbatim>\<open>SequenceEqual\<close> drives two cursors. The first is pulled in the loop header, the second
  in the body; after the loop the second is pulled once more.
\<close>

fun SequenceEqual_loop :: "Iterator \<Rightarrow> Iterator \<Rightarrow> bool \<times> Iterator \<times> Iterator" where
  "SequenceEqual_loop [] it2 =
     (case next_item it2 of ((_, ok2), it2') \<Rightarrow> (\<not> ok2, [], it2'))"
| "SequenceEqual_loop (item # rest) it2 =
     (case next_item it2 of ((item2, ok2), it2') \<Rightarrow>
        if \<not> ok2 \<or> item \<noteq> item2 then (False, rest, it2')
        else SequenceEqual_loop rest it2')"

definition SequenceEqual :: "Query \<Rightarrow> Query \<Rightarrow> bool \<times> Iterator \<times> Iterator" where
  "SequenceEqual q q2 = SequenceEqual_loop (Iterate q) (Iterate q2)"

section \<open>Sums\<close>

type_synonym int64 = "64 word"

type_synonym intConverter = "val \<Rightarrow> panic + int64"

text \<open>
  \<^verbatim>\<open>getIntConverter\<close> is declared outside \<^verbatim>\<open>result.go\<close>; \<^verbatim>\<open>SumInts\<close> takes it as a
  parameter. A converter may panic on an element it cannot convert. \<^verbatim>\<open>SumInts\<close> accumulates
  in \<^verbatim>\<open>int64\<close>, where \<open>+\<close> wraps around as Go's does.
\<close>

fun SumInts_loop :: "intConverter \<Rightarrow> int64 \<Rightarrow> Iterator \<Rightarrow> panic + int64" where
  "SumInts_loop conv r [] = Inr r"
| "SumInts_loop conv r (item # rest) =
     (case conv item of
        Inl e \<Rightarrow> Inl e
      | Inr v \<Rightarrow> SumInts_loop conv (r + v) rest)"

definition SumInts :: "(val \<Rightarrow> intConverter) \<Rightarrow> Query \<Rightarrow> panic + int64" where
  "SumInts getIntConverter q =
     (case next_item (Iterate q) of
        ((item, ok), it) \<Rightarrow>
          if \<not> ok then Inr 0
          else (let conv = getIntConverter item in
                case conv item of
                  Inl e \<Rightarrow> Inl e
                | Inr r \<Rightarrow> SumInts_loop conv r it))"

text \<open>
  Modelled from the spec: the converter that \<^verbatim>\<open>getIntConverter\<close> selects. By the
  specification a numeric converter is a pure function of one numeric family, chosen from
  the first element and applied to every element; the converter of the signed-integer
  family widens to the largest signed representation, and an element for which no widening
  conversion exists is a fatal error. Widening a signed word is sign extension, \<open>scast\<close>.
\<close>

definition widen_signed :: intConverter where
  "widen_signed i =
     (case i of
        VInt w \<Rightarrow> Inr (scast w)
      | VInt8 w \<Rightarrow> Inr (scast w)
      | VInt16 w \<Rightarrow> Inr (scast w)
      | VInt32 w \<Rightarrow> Inr (scast w)
      | VInt64 w \<Rightarrow> Inr (scast w)
      | _ \<Rightarrow> Inl InterfaceConversion)"

text \<open>The integer that a value of a signed integer type denotes.\<close>

fun signed_value :: "val \<Rightarrow> int option" where
  "signed_value (VInt w) = Some (sint w)"
| "signed_value (VInt8 w) = Some (sint w)"
| "signed_value (VInt16 w) = Some (sint w)"
| "signed_value (VInt32 w) = Some (sint w)"
| "signed_value (VInt64 w) = Some (sint w)"
| "signed_value _ = None"

section \<open>Average\<close>













section \<open>Extrema\<close>

text \<open>
  \<^verbatim>\<open>getComparer\<close> is declared outside \<^verbatim>\<open>result.go\<close>; \<^verbatim>\<open>Max\<close> and \<^verbatim>\<open>Min\<close> take it as
  a parameter. A comparer answers a negative number, zero or a positive number.
\<close>

type_synonym comparer = "val \<Rightarrow> val \<Rightarrow> int"

fun Max_loop :: "comparer \<Rightarrow> val \<Rightarrow> Iterator \<Rightarrow> val \<times> Iterator" where
  "Max_loop compare r [] = (r, [])"
| "Max_loop compare r (item # rest) =
     Max_loop compare (if compare item r > 0 then item else r) rest"

definition Max_op :: "(val \<Rightarrow> comparer) \<Rightarrow> Query \<Rightarrow> val \<times> Iterator" where
  "Max_op getComparer q =
     (case next_item (Iterate q) of
        ((item, ok), it) \<Rightarrow>
          if \<not> ok then (VNil, it)
          else (let compare = getComparer item in Max_loop compare item it))"

fun Min_loop :: "comparer \<Rightarrow> val \<Rightarrow> Iterator \<Rightarrow> val \<times> Iterator" where
  "Min_loop compare r [] = (r, [])"
| "Min_loop compare r (item # rest) =
     Min_loop compare (if compare item r < 0 then item else r) rest"

definition Min_op :: "(val \<Rightarrow> comparer) \<Rightarrow> Query \<Rightarrow> val \<times> Iterator" where
  "Min_op getComparer q =
     (case next_item (Iterate q) of
        ((item, ok), it) \<Rightarrow>
          if \<not> ok then (VNil, it)
          else (let compare = getComparer item in Min_loop compare item it))"

text \<open>
  What the specification asks of a comparer on the elements of a sequence: the signs of
  \<open>compare x y\<close> and \<open>compare y x\<close> are opposite, and "not above" is transitive. Distinct
  elements may compare as equal.
\<close>

definition total_order_on :: "val set \<Rightarrow> comparer \<Rightarrow> bool" where
  "total_order_on A compare \<longleftrightarrow>
     (\<forall>x\<in>A. \<forall>y\<in>A. (compare x y > 0) = (compare y x < 0))
     \<and> (\<forall>x\<in>A. \<forall>y\<in>A. \<forall>z\<in>A. compare x y \<le> 0 \<and> compare y z \<le> 0 \<longrightarrow> compare x z \<le> 0)"

text \<open>
  Modelled from the spec: the comparer that \<^verbatim>\<open>getComparer\<close> selects for a sample of type
  \<^verbatim>\<open>int\<close> (numeric types compare by value). On operands of another type, where the
  specification leaves the behaviour open, it answers 0.
\<close>

definition compare_int :: comparer where
  "compare_int x y =
     (case (x, y) of
        (VInt a, VInt b) \<Rightarrow> (if sint a > sint b then 1 else if sint b > sint a then - 1 else 0)
      | _ \<Rightarrow> 0)"

section \<open>Materialisation into a slice\<close>

text \<open>
  \<^verbatim>\<open>ToSlice\<close> works through the \<^verbatim>\<open>reflect\<close> package on a slice whose element type is known
  at run time only. The embedding has the static types of the modelled values and the
  empty interface as element types.
\<close>

datatype gotype =
    TInt | TInt8 | TInt16 | TInt32 | TInt64
  | TUint | TUint8 | TUint16 | TUint32 | TUint64
  | TBool | TString | TInterface

text \<open>The dynamic type of a value; \<^verbatim>\<open>nil\<close> has none.\<close>

fun typeOf :: "val \<Rightarrow> gotype option" where
  "typeOf VNil = None"
| "typeOf (VInt _) = Some TInt"
| "typeOf (VInt8 _) = Some TInt8"
| "typeOf (VInt16 _) = Some TInt16"
| "typeOf (VInt32 _) = Some TInt32"
| "typeOf (VInt64 _) = Some TInt64"
| "typeOf (VUint _) = Some TUint"
| "typeOf (VUint8 _) = Some TUint8"
| "typeOf (VUint16 _) = Some TUint16"
| "typeOf (VUint32 _) = Some TUint32"
| "typeOf (VUint64 _) = Some TUint64"
| "typeOf (VBool _) = Some TBool"
| "typeOf (VString _) = Some TString"

text \<open>The zero value of a type, with which \<^verbatim>\<open>reflect.MakeSlice\<close> fills a new array.\<close>

fun zero_value :: "gotype \<Rightarrow> val" where
  "zero_value TInt = VInt 0"
| "zero_value TInt8 = VInt8 0"
| "zero_value TInt16 = VInt16 0"
| "zero_value TInt32 = VInt32 0"
| "zero_value TInt64 = VInt64 0"
| "zero_value TUint = VUint 0"
| "zero_value TUint8 = VUint8 0"
| "zero_value TUint16 = VUint16 0"
| "zero_value TUint32 = VUint32 0"
| "zero_value TUint64 = VUint64 0"
| "zero_value TBool = VBool False"
| "zero_value TString = VString []"
| "zero_value TInterface = VNil"

text \<open>
  \<^verbatim>\<open>slice.Index(i).Set(reflect.ValueOf(item))\<close> panics unless the item can be assigned to
  the element type: its dynamic type is the element type, or the element type is the empty
  interface. \<^verbatim>\<open>reflect.ValueOf(nil)\<close> is the invalid \<^verbatim>\<open>Value\<close>, which \<^verbatim>\<open>Set\<close> refuses.
\<close>

definition assignable :: "val \<Rightarrow> gotype \<Rightarrow> bool" where
  "assignable v T = (case typeOf v of None \<Rightarrow> False | Some U \<Rightarrow> T = TInterface \<or> U = T)"

text \<open>
  Slices alias their backing arrays, so the arrays live in an explicit memory: a list of
  arrays, the address of an array being its position. A slice header names its array and
  carries a length and a capacity; the array is taken from the slice's first element on, so
  the capacity is at most the array's length. \<^verbatim>\<open>reflect.MakeSlice\<close> allocates at the next
  free address. Lengths and capacities are natural numbers (no overflow of \<^verbatim>\<open>int\<close>: a slice
  never holds \<open>2^62\<close> elements).
\<close>

type_synonym memory = "val list list"

record slice =
  arr :: nat
  Len :: nat
  Cap :: nat
  elemType :: gotype

definition valid_slice :: "memory \<Rightarrow> slice \<Rightarrow> bool" where
  "valid_slice mem s \<longleftrightarrow> arr s < length mem \<and> Len s \<le> Cap s \<and> Cap s \<le> length (mem ! arr s)"

text \<open>\<^verbatim>\<open>s.Slice(0, j)\<close>: panics when \<open>j\<close> exceeds the capacity.\<close>

definition Slice :: "slice \<Rightarrow> nat \<Rightarrow> panic + slice" where
  "Slice s j = (if Cap s < j then Inl ReflectPanic else Inr (s\<lparr>Len := j\<rparr>))"

text \<open>\<^verbatim>\<open>reflect.MakeSlice(typ, len, cap)\<close>: panics when \<open>len > cap\<close>.\<close>

definition MakeSlice :: "memory \<Rightarrow> gotype \<Rightarrow> nat \<Rightarrow> nat \<Rightarrow> panic + memory \<times> slice" where
  "MakeSlice mem T n c =
     (if c < n then Inl ReflectPanic
      else Inr (mem @ [replicate c (zero_value T)],
                \<lparr>arr = length mem, Len = n, Cap = c, elemType = T\<rparr>))"

text \<open>\<^verbatim>\<open>reflect.Copy(dst, src)\<close> copies as many elements as the shorter slice has.\<close>

definition Copy :: "memory \<Rightarrow> slice \<Rightarrow> slice \<Rightarrow> memory" where
  "Copy mem dst src =
     (let n = min (Len dst) (Len src)
      in mem[arr dst := take n (mem ! arr src) @ drop n (mem ! arr dst)])"

text \<open>\<^verbatim>\<open>s.Index(i).Set(reflect.ValueOf(v))\<close>.\<close>

definition IndexSet :: "memory \<Rightarrow> slice \<Rightarrow> nat \<Rightarrow> val \<Rightarrow> panic + memory" where
  "IndexSet mem s i v =
     (if Len s \<le> i then Inl ReflectPanic
      else if \<not> assignable v (elemType s) then Inl ReflectPanic
      else Inr (mem[arr s := (mem ! arr s)[i := v]]))"

text \<open>
  The loop \<^verbatim>\<open>for cap < newLen { cap *= 2 }\<close> of \<^verbatim>\<open>grow\<close>. From \<open>cap = 0\<close> it would not
  terminate, so it is a partial function: \<open>None\<close> is the loop that runs forever. The
  parameter \<^verbatim>\<open>extra\<close> of \<^verbatim>\<open>grow\<close> is a \<^verbatim>\<open>uint\<close> that the source converts with \<^verbatim>\<open>int(extra)\<close>;
  the embedding reads it as a natural number in the range of \<^verbatim>\<open>int\<close>, where the conversion
  changes nothing (\<^verbatim>\<open>ToSlice\<close> passes 1).
\<close>

partial_function (option) grow_cap :: "nat \<Rightarrow> nat \<Rightarrow> nat option" where
  "grow_cap cap newLen = (if cap < newLen then grow_cap (cap * 2) newLen else Some cap)"

declare grow_cap.simps [code]

definition grow :: "memory \<Rightarrow> slice \<Rightarrow> nat \<Rightarrow> (panic + memory \<times> slice) option" where
  "grow mem s extra =
     (let len = Len s; newLen = len + extra; cap = Cap s in
      if newLen \<le> cap then
        Some (case Slice s newLen of Inl e \<Rightarrow> Inl e | Inr s' \<Rightarrow> Inr (mem, s'))
      else
        (case (if cap = 0 then Some extra else grow_cap cap newLen) of
           None \<Rightarrow> None
         | Some cap' \<Rightarrow>
             Some (case MakeSlice mem (elemType s) newLen cap' of
                     Inl e \<Rightarrow> Inl e
                   | Inr (mem', newSlice) \<Rightarrow> Inr (Copy mem' newSlice s, newSlice))))"

text \<open>
  \<^verbatim>\<open>ToSlice\<close> receives a pointer to a slice: the memory and the slice header the pointer
  refers to. It returns the memory and the header it stores back through the pointer. The
  local \<^verbatim>\<open>slice\<close> of the source is \<open>s\<close> here.
\<close>

fun ToSlice_loop ::
  "memory \<Rightarrow> slice \<Rightarrow> nat \<Rightarrow> Iterator \<Rightarrow> (panic + memory \<times> slice \<times> nat) option" where
  "ToSlice_loop mem s index [] = Some (Inr (mem, s, index))"
| "ToSlice_loop mem s index (item # rest) =
     (case (if Len s \<le> index then grow mem s 1 else Some (Inr (mem, s))) of
        None \<Rightarrow> None
      | Some (Inl e) \<Rightarrow> Some (Inl e)
      | Some (Inr (mem1, s1)) \<Rightarrow>
          (case IndexSet mem1 s1 index item of
             Inl e \<Rightarrow> Some (Inl e)
           | Inr mem2 \<Rightarrow> ToSlice_loop mem2 s1 (index + 1) rest))"

definition ToSlice :: "Query \<Rightarrow> memory \<Rightarrow> slice \<Rightarrow> (panic + memory \<times> slice) option" where
  "ToSlice q mem result =
     (case ToSlice_loop mem result 0 (Iterate q) of
        None \<Rightarrow> None
      | Some (Inl e) \<Rightarrow> Some (Inl e)
      | Some (Inr (mem', s, index)) \<Rightarrow>
          Some (case Slice s index of Inl e \<Rightarrow> Inl e | Inr s' \<Rightarrow> Inr (mem', s')))"

text \<open>
  The slice header and the array that \<^verbatim>\<open>grow\<close> produces when it reallocates to capacity
  \<open>c\<close> and length \<open>n\<close>: a new array at the next free address, holding the old elements
  followed by zero values.
\<close>

definition fresh_slice :: "memory \<Rightarrow> slice \<Rightarrow> nat \<Rightarrow> nat \<Rightarrow> slice" where
  "fresh_slice mem s n c = \<lparr>arr = length mem, Len = n, Cap = c, elemType = elemType s\<rparr>"

definition fresh_array :: "memory \<Rightarrow> slice \<Rightarrow> nat \<Rightarrow> val list" where
  "fresh_array mem s c = take (Len s) (mem ! arr s) @ replicate (c - Len s) (zero_value (elemType s))"

text \<open>
  The capacities of the arrays allocated between two memories, oldest first, and what it
  means for a sequence of capacities to at least double at every step.
\<close>

definition new_caps :: "memory \<Rightarrow> memory \<Rightarrow> nat list" where
  "new_caps mem mem' = map length (drop (length mem) mem')"

definition doubling :: "nat list \<Rightarrow> bool" where
  "doubling cs = successively (\<lambda>a b. 2 * a \<le> b) cs"

section \<open>Output to a channel\<close>

text \<open>
  \<^verbatim>\<open>ToChannel\<close> performs a sequence of operations on the channel it is given. The state of
  a channel is the history of the operations completed on it. Sending on a closed channel
  and closing a closed channel panic, as in Go. A send is taken to complete: blocking on a
  full or unbuffered channel until a receiver arrives is outside the model, as is a \<^verbatim>\<open>nil\<close>
  channel.
\<close>

datatype chan_op = Send val | Close

type_synonym chan = "chan_op list"

definition closed :: "chan \<Rightarrow> bool" where
  "closed ch \<longleftrightarrow> Close \<in> set ch"

definition send :: "chan \<Rightarrow> val \<Rightarrow> panic + chan" where
  "send ch v = (if closed ch then Inl SendOnClosedChannel else Inr (ch @ [Send v]))"

definition close :: "chan \<Rightarrow> panic + chan" where
  "close ch = (if closed ch then Inl CloseOfClosedChannel else Inr (ch @ [Close]))"

fun ToChannel_loop :: "chan \<Rightarrow> Iterator \<Rightarrow> panic + chan" where
  "ToChannel_loop result [] = Inr result"
| "ToChannel_loop result (item # rest) =
     (case send result item of
        Inl e \<Rightarrow> Inl e
      | Inr result' \<Rightarrow> ToChannel_loop result' rest)"

definition ToChannel :: "Query \<Rightarrow> chan \<Rightarrow> panic + chan" where
  "ToChannel q result =
     (case ToChannel_loop result (Iterate q) of
        Inl e \<Rightarrow> Inl e
      | Inr result' \<Rightarrow> close result')"

section \<open>Typed variants\<close>

text \<open>
  The typed operators take their predicate as an \<^verbatim>\<open>interface{}\<close>: any value, in particular
  a function of any signature. A function value, seen through reflection, has parameter
  types, result types and a behaviour on argument lists.
\<close>

record gofunc =
  TypesIn :: "gotype list"
  TypesOut :: "gotype list"
  FnValue :: "val list \<Rightarrow> panic + val list"

datatype dyn = Value val | Func gofunc

text \<open>
  Modelled from the spec: \<^verbatim>\<open>newGenericFunc\<close>, \<^verbatim>\<open>simpleParamValidator\<close>, \<^verbatim>\<open>genericType\<close> and
  the method \<^verbatim>\<open>Call\<close> are declared outside \<^verbatim>\<open>result.go\<close>. By the specification the adapter
  receives a callable and a declared shape (here: one parameter of any type, one result of
  type \<^verbatim>\<open>bool\<close>), validates the callable's parameter count and types against the shape when
  the operator is invoked, fails with an error naming the operator and the parameter on a
  mismatch, and otherwise yields a wrapper that performs the underlying call on one element.
  The call goes through reflection, which panics on an argument that cannot be assigned to
  the parameter type.
\<close>

datatype shape = genericType | Exact gotype

definition conforms :: "shape \<Rightarrow> gotype \<Rightarrow> bool" where
  "conforms c T = (case c of genericType \<Rightarrow> True | Exact U \<Rightarrow> U = T)"

definition simpleParamValidator :: "shape list \<Rightarrow> shape list \<Rightarrow> gofunc \<Rightarrow> bool" where
  "simpleParamValidator ins outs f \<longleftrightarrow>
     list_all2 conforms ins (TypesIn f) \<and> list_all2 conforms outs (TypesOut f)"

definition newGenericFunc ::
  "string \<Rightarrow> string \<Rightarrow> dyn \<Rightarrow> (gofunc \<Rightarrow> bool) \<Rightarrow> generic_error + gofunc" where
  "newGenericFunc methodName paramName fn validateFunc =
     (case fn of
        Value _ \<Rightarrow> Inl (NotAFunction methodName paramName)
      | Func f \<Rightarrow>
          if validateFunc f then Inr f else Inl (InvalidSignature methodName paramName))"

definition Call :: "gofunc \<Rightarrow> val \<Rightarrow> panic + val" where
  "Call g item =
     (if \<not> list_all2 assignable [item] (TypesIn g) then Inl ReflectPanic
      else case FnValue g [item] of
             Inl e \<Rightarrow> Inl e
           | Inr outs \<Rightarrow> Inr (case outs of [] \<Rightarrow> VNil | r # _ \<Rightarrow> r))"

text \<open>The type assertion \<^verbatim>\<open>v.(bool)\<close>.\<close>

definition assert_bool :: "val \<Rightarrow> panic + bool" where
  "assert_bool v = (case v of VBool b \<Rightarrow> Inr b | _ \<Rightarrow> Inl InterfaceConversion)"

text \<open>
  The closure \<^verbatim>\<open>predicateFunc\<close> that every typed operator builds around the validated
  function: \<^verbatim>\<open>predicateGenericFunc.Call(item).(bool)\<close>.
\<close>

definition predicateFunc :: "gofunc \<Rightarrow> predicate" where
  "predicateFunc predicateGenericFunc item =
     (case Call predicateGenericFunc item of
        Inl e \<Rightarrow> Inl e
      | Inr v \<Rightarrow> assert_bool v)"

text \<open>
  A typed operator that panics on the validation error has not called \<^verbatim>\<open>q.Iterate()\<close>:
  the cursor it reports is the fresh one.
\<close>

definition AllT :: "Query \<Rightarrow> dyn \<Rightarrow> (panic + bool) \<times> Iterator" where
  "AllT q predicateFn =
     (case newGenericFunc ''AllT'' ''predicateFn'' predicateFn
             (simpleParamValidator [genericType] [Exact TBool]) of
        Inl err \<Rightarrow> (Inl (GenericFuncError err), Iterate q)
      | Inr predicateGenericFunc \<Rightarrow> All_op q (predicateFunc predicateGenericFunc))"

definition AnyWithT :: "Query \<Rightarrow> dyn \<Rightarrow> (panic + bool) \<times> Iterator" where
  "AnyWithT q predicateFn =
     (case newGenericFunc ''AnyWithT'' ''predicateFn'' predicateFn
             (simpleParamValidator [genericType] [Exact TBool]) of
        Inl err \<Rightarrow> (Inl (GenericFuncError err), Iterate q)
      | Inr predicateGenericFunc \<Rightarrow> AnyWith q (predicateFunc predicateGenericFunc))"

definition FirstWithT :: "Query \<Rightarrow> dyn \<Rightarrow> (panic + val) \<times> Iterator" where
  "FirstWithT q predicateFn =
     (case newGenericFunc ''FirstWithT'' ''predicateFn'' predicateFn
             (simpleParamValidator [genericType] [Exact TBool]) of
        Inl err \<Rightarrow> (Inl (GenericFuncError err), Iterate q)
      | Inr predicateGenericFunc \<Rightarrow> FirstWith q (predicateFunc predicateGenericFunc))"

definition SingleWithT :: "Query \<Rightarrow> dyn \<Rightarrow> (panic + val) \<times> Iterator" where
  "SingleWithT q predicateFn =
     (case newGenericFunc ''SingleWithT'' ''predicateFn'' predicateFn
             (simpleParamValidator [genericType] [Exact TBool]) of
        Inl err \<Rightarrow> (Inl (GenericFuncError err), Iterate q)
      | Inr predicateGenericFunc \<Rightarrow> SingleWith q (predicateFunc predicateGenericFunc))"

text \<open>
  A function value of Go type \<^verbatim>\<open>func(T) bool\<close> that computes the predicate \<open>p\<close> on the
  values of type \<open>T\<close>.
\<close>

definition computes :: "gofunc \<Rightarrow> gotype \<Rightarrow> (val \<Rightarrow> bool) \<Rightarrow> bool" where
  "computes f T p \<longleftrightarrow>
     TypesIn f = [T] \<and> TypesOut f = [TBool]
     \<and> (\<forall>x. assignable x T \<longrightarrow> FnValue f [x] = Inr [VBool (p x)])"

section \<open>The loops and the iteration protocol\<close>

text \<open>
  One turn of each loop, written with \<open>next_item\<close> as the source writes it with \<^verbatim>\<open>next()\<close>.
\<close>

lemma All_loop_next:
  "All_loop predicate it =
     (case next_item it of
        ((item, ok), it') \<Rightarrow>
          if \<not> ok then (Inr True, it')
          else (case predicate item of
                  Inl e \<Rightarrow> (Inl e, it')
                | Inr b \<Rightarrow> if \<not> b then (Inr False, it') else All_loop predicate it'))"
  by (cases it) simp_all

lemma AnyWith_loop_next:
  "AnyWith_loop predicate it =
     (case next_item it of
        ((item, ok), it') \<Rightarrow>
          if \<not> ok then (Inr False, it')
          else (case predicate item of
                  Inl e \<Rightarrow> (Inl e, it')
                | Inr b \<Rightarrow> if b then (Inr True, it') else AnyWith_loop predicate it'))"
  by (cases it) simp_all

lemma FirstWith_loop_next:
  "FirstWith_loop predicate it =
     (case next_item it of
        ((item, ok), it') \<Rightarrow>
          if \<not> ok then (Inr VNil, it')
          else (case predicate item of
                  Inl e \<Rightarrow> (Inl e, it')
                | Inr b \<Rightarrow> if b then (Inr item, it') else FirstWith_loop predicate it'))"
  by (cases it) simp_all

lemma SingleWith_loop_next:
  "SingleWith_loop predicate found r it =
     (case next_item it of
        ((item, ok), it') \<Rightarrow>
          if \<not> ok then (Inr r, it')
          else (case predicate item of
                  Inl e \<Rightarrow> (Inl e, it')
                | Inr b \<Rightarrow>
                    if b then
                      (if found then (Inr VNil, it')
                       else SingleWith_loop predicate True item it')
                    else SingleWith_loop predicate found r it'))"
  by (cases it) simp_all

lemma Max_loop_next:
  "Max_loop compare r it =
     (case next_item it of
        ((item, ok), it') \<Rightarrow>
          if \<not> ok then (r, it')
          else Max_loop compare (if compare item r > 0 then item else r) it')"
  by (cases it) simp_all

lemma Min_loop_next:
  "Min_loop compare r it =
     (case next_item it of
        ((item, ok), it') \<Rightarrow>
          if \<not> ok then (r, it')
          else Min_loop compare (if compare item r < 0 then item else r) it')"
  by (cases it) simp_all

lemma SumInts_loop_next:
  "SumInts_loop conv r it =
     (case next_item it of
        ((item, ok), it') \<Rightarrow>
          if \<not> ok then Inr r
          else (case conv item of
                  Inl e \<Rightarrow> Inl e
                | Inr v \<Rightarrow> SumInts_loop conv (r + v) it'))"
  by (cases it) simp_all

lemma ToChannel_loop_next:
  "ToChannel_loop result it =
     (case next_item it of
        ((item, ok), it') \<Rightarrow>
          if \<not> ok then Inr result
          else (case send result item of
                  Inl e \<Rightarrow> Inl e
                | Inr result' \<Rightarrow> ToChannel_loop result' it'))"
  by (cases it) simp_all

lemma next_item_exhausted: "next_item (snd (next_item [])) = ((VNil, False), [])"
  by simp

section \<open>Properties of the existence checks\<close>

lemma All_loop_dual:
  "All_loop p it =
     (case AnyWith_loop (\<lambda>x. map_sum id Not (p x)) it of
        (r, it') \<Rightarrow> (map_sum id Not r, it'))"
  by (induction it) (auto split: sum.splits)

lemma AnyWith_loop_returns:
  "\<exists>a. fst (AnyWith_loop (returns g) it) = Inr a"
  by (induction it) (auto simp: returns_def)

text \<open>
  Claim C10. For every finite sequence and every predicate \<open>p\<close>, \<^verbatim>\<open>All(p)\<close> is the
  negation of \<^verbatim>\<open>AnyWith\<close> applied to the pointwise negation of \<open>p\<close>: both return, and
  the one answer is the negation of the other. The same holds for a predicate \<open>P\<close> that may
  panic (both operators then panic at the same element), and the two operators pull the
  same elements from the cursor.
\<close>

theorem All_AnyWith_duality:
  "(\<exists>a. fst (AnyWith q (returns (\<lambda>x. \<not> p x))) = Inr a
        \<and> fst (All_op q (returns p)) = Inr (\<not> a))
   \<and> fst (All_op q P) = map_sum id Not (fst (AnyWith q (\<lambda>x. map_sum id Not (P x))))
   \<and> snd (All_op q P) = snd (AnyWith q (\<lambda>x. map_sum id Not (P x)))"
proof -
  have neg: "(\<lambda>x. map_sum id Not (returns p x)) = returns (\<lambda>x. \<not> p x)"
    by (simp add: returns_def fun_eq_iff)
  have gen: "All_op q P' =
      (case AnyWith q (\<lambda>x. map_sum id Not (P' x)) of (r, it') \<Rightarrow> (map_sum id Not r, it'))"
    for P'
    by (simp add: All_op_def AnyWith_def All_loop_dual)
  obtain a where a: "fst (AnyWith q (returns (\<lambda>x. \<not> p x))) = Inr a"
    using AnyWith_loop_returns [of "\<lambda>x. \<not> p x" "Iterate q"] by (auto simp: AnyWith_def)
  have "fst (All_op q (returns p)) = Inr (\<not> a)"
    using a gen [of "returns p"] by (simp add: neg split: prod.splits)
  with a show ?thesis
    using gen [of P] by (auto split: prod.splits)
qed

section \<open>Properties of the selection operators\<close>

lemma FirstWith_loop_none:
  "\<forall>x\<in>set xs. \<not> p x \<Longrightarrow> FirstWith_loop (returns p) xs = (Inr VNil, [])"
  by (induction xs) (auto simp: returns_def)

lemma FirstWith_loop_found:
  "\<forall>y\<in>set ys. \<not> p y \<Longrightarrow> p x \<Longrightarrow>
   FirstWith_loop (returns p) (ys @ x # zs) = (Inr x, zs)"
  by (induction ys) (auto simp: returns_def)

text \<open>
  Claim C8. \<^verbatim>\<open>First\<close> returns \<^verbatim>\<open>nil\<close> for the empty sequence and otherwise the first
  element, pulling that element only. \<^verbatim>\<open>FirstWith\<close> returns \<^verbatim>\<open>nil\<close> for the empty
  sequence and when no element satisfies the predicate; otherwise it returns the first
  element that satisfies it and leaves every element after that one in the cursor.
\<close>

theorem First_FirstWith:
  "First \<lparr>Iterate = []\<rparr> = (VNil, [])
   \<and> First \<lparr>Iterate = x # xs\<rparr> = (x, xs)
   \<and> FirstWith \<lparr>Iterate = []\<rparr> P = (Inr VNil, [])
   \<and> ((\<forall>y\<in>set ys. \<not> p y) \<longrightarrow> FirstWith \<lparr>Iterate = ys\<rparr> (returns p) = (Inr VNil, []))
   \<and> ((\<forall>y\<in>set ys. \<not> p y) \<and> p z \<longrightarrow>
        FirstWith \<lparr>Iterate = ys @ z # zs\<rparr> (returns p) = (Inr z, zs))"
  by (simp add: First_def FirstWith_def FirstWith_loop_none FirstWith_loop_found)

theorem First_FirstWith_witness:
  "First \<lparr>Iterate = []\<rparr> = (VNil, [])
   \<and> First \<lparr>Iterate = [VInt8 7, VInt8 8]\<rparr> = (VInt8 7, [VInt8 8])
   \<and> FirstWith \<lparr>Iterate = [VInt8 1, VInt8 3]\<rparr> (returns ((=) (VInt8 2))) = (Inr VNil, [])
   \<and> FirstWith \<lparr>Iterate = [VInt8 1, VInt8 2, VInt8 3, VInt8 2]\<rparr> (returns ((=) (VInt8 2)))
       = (Inr (VInt8 2), [VInt8 3, VInt8 2])"
  using
    First_FirstWith [of "VInt8 7" "[VInt8 8]" "returns ((=) (VInt8 2))" "[VInt8 1, VInt8 3]"
      "(=) (VInt8 2)" "VInt8 2" "[VInt8 3, VInt8 2]"]
    First_FirstWith [of "VInt8 7" "[VInt8 8]" "returns ((=) (VInt8 2))" "[VInt8 1]"
      "(=) (VInt8 2)" "VInt8 2" "[VInt8 3, VInt8 2]"]
  by simp

lemma SingleWith_loop_rest_none:
  "filter p xs = [] \<Longrightarrow> SingleWith_loop (returns p) found r xs = (Inr r, [])"
  by (induction xs) (auto simp: returns_def split: if_splits)

lemma SingleWith_loop_second:
  "filter p bs = [] \<Longrightarrow> p y \<Longrightarrow>
   SingleWith_loop (returns p) True r (bs @ y # cs) = (Inr VNil, cs)"
  by (induction bs) (auto simp: returns_def split: if_splits)

lemma SingleWith_loop_first:
  "filter p as = [] \<Longrightarrow> p x \<Longrightarrow>
   SingleWith_loop (returns p) False r (as @ x # rest) = SingleWith_loop (returns p) True x rest"
  by (induction as) (auto simp: returns_def split: if_splits)

lemma filter_single_decomp:
  "filter p xs = [x] \<Longrightarrow>
   \<exists>as bs. xs = as @ x # bs \<and> filter p as = [] \<and> filter p bs = [] \<and> p x"
  by (metis filter_False filter_eq_Cons_iff)

lemma SingleWith_none:
  "filter p xs = [] \<Longrightarrow> SingleWith \<lparr>Iterate = xs\<rparr> (returns p) = (Inr VNil, [])"
  by (simp add: SingleWith_def SingleWith_loop_rest_none)

lemma SingleWith_unique:
  assumes "filter p xs = [x]"
  shows "SingleWith \<lparr>Iterate = xs\<rparr> (returns p) = (Inr x, [])"
proof -
  from filter_single_decomp [OF assms]
  obtain as bs where d: "xs = as @ x # bs" "filter p as = []" "filter p bs = []" "p x"
    by (elim exE conjE)
  have "SingleWith_loop (returns p) False VNil (as @ x # bs)
        = SingleWith_loop (returns p) True x bs"
    using d(2,4) by (rule SingleWith_loop_first)
  also have "\<dots> = (Inr x, [])"
    using d(3) by (rule SingleWith_loop_rest_none)
  finally show ?thesis by (simp add: SingleWith_def d(1))
qed

lemma SingleWith_ambiguous:
  assumes "filter p as = []" "p y" "filter p bs = []" "p z"
  shows "SingleWith \<lparr>Iterate = as @ y # bs @ z # cs\<rparr> (returns p) = (Inr VNil, cs)"
proof -
  have "SingleWith_loop (returns p) False VNil (as @ y # bs @ z # cs)
        = SingleWith_loop (returns p) True y (bs @ z # cs)"
    using assms(1,2) by (rule SingleWith_loop_first)
  also have "\<dots> = (Inr VNil, cs)"
    using assms(3,4) by (rule SingleWith_loop_second)
  finally show ?thesis by (simp add: SingleWith_def)
qed

text \<open>
  Claim C6, as stated: \<^verbatim>\<open>SingleWith\<close> performs no early exit and scans the full sequence.
  It does not: on the sequence \<open>1, 1, 2\<close> with the predicate "equals 1" the second match
  makes it return at once, and the element \<open>2\<close> is never pulled.
\<close>

theorem SingleWith_early_exit:
  "snd (SingleWith \<lparr>Iterate = [VInt 1, VInt 1, VInt 2]\<rparr> (returns ((=) (VInt 1)))) = [VInt 2]
   \<and> snd (SingleWith \<lparr>Iterate = [VInt 1, VInt 1, VInt 2]\<rparr> (returns ((=) (VInt 1)))) \<noteq> []"
  by (simp add: SingleWith_def returns_def)

text \<open>
  Claim C6, amended. \<^verbatim>\<open>SingleWith\<close> returns \<^verbatim>\<open>nil\<close> when no element satisfies the
  predicate and the unique matching element when exactly one does, in both cases after
  scanning the full sequence; when a second element satisfies the predicate it returns
  \<^verbatim>\<open>nil\<close> at that element and leaves the elements after it in the cursor.
\<close>

theorem SingleWith_result:
  "(filter p xs = [] \<longrightarrow> SingleWith \<lparr>Iterate = xs\<rparr> (returns p) = (Inr VNil, []))
   \<and> (filter p xs = [x] \<longrightarrow> SingleWith \<lparr>Iterate = xs\<rparr> (returns p) = (Inr x, []))
   \<and> (filter p as = [] \<and> p y \<and> filter p bs = [] \<and> p z \<longrightarrow>
        SingleWith \<lparr>Iterate = as @ y # bs @ z # cs\<rparr> (returns p) = (Inr VNil, cs))"
proof (intro conjI impI)
  assume "filter p xs = []"
  then show "SingleWith \<lparr>Iterate = xs\<rparr> (returns p) = (Inr VNil, [])"
    by (rule SingleWith_none)
next
  assume "filter p xs = [x]"
  then show "SingleWith \<lparr>Iterate = xs\<rparr> (returns p) = (Inr x, [])"
    by (rule SingleWith_unique)
next
  assume "filter p as = [] \<and> p y \<and> filter p bs = [] \<and> p z"
  then have "filter p as = []" "p y" "filter p bs = []" "p z"
    by simp_all
  then show "SingleWith \<lparr>Iterate = as @ y # bs @ z # cs\<rparr> (returns p) = (Inr VNil, cs)"
    by (rule SingleWith_ambiguous)
qed

theorem SingleWith_result_witness:
  "SingleWith \<lparr>Iterate = [VInt 1, VInt 3]\<rparr> (returns ((=) (VInt 2))) = (Inr VNil, [])
   \<and> SingleWith \<lparr>Iterate = [VInt 1, VInt 2, VInt 3]\<rparr> (returns ((=) (VInt 2)))
        = (Inr (VInt 2), [])
   \<and> SingleWith \<lparr>Iterate = [VInt 1, VInt 2, VInt 3, VInt 2, VInt 4, VInt 5]\<rparr>
          (returns ((=) (VInt 2)))
        = (Inr VNil, [VInt 4, VInt 5])"
  using
    SingleWith_result [of "(=) (VInt 2)" "[VInt 1, VInt 3]" "VInt 2" "[VInt 1]" "VInt 2"
      "[VInt 3]" "VInt 2" "[VInt 4, VInt 5]"]
    SingleWith_result [of "(=) (VInt 2)" "[VInt 1, VInt 2, VInt 3]" "VInt 2" "[VInt 1]" "VInt 2"
      "[VInt 3]" "VInt 2" "[VInt 4, VInt 5]"]
  by simp

section \<open>Properties of the pairwise comparison\<close>

lemma SequenceEqual_loop_iff: "fst (SequenceEqual_loop xs ys) = (xs = ys)"
proof (induction xs arbitrary: ys)
  case Nil
  show ?case by (cases ys) auto
next
  case (Cons x xs)
  show ?case by (cases ys) (auto simp: Cons.IH)
qed

lemma SequenceEqual_loop_step:
  "SequenceEqual_loop xs ys = (b, it, it2) \<Longrightarrow>
   length it \<le> length xs \<and> length it2 \<le> length ys
   \<and> length xs - length it \<le> Suc (length ys - length it2)
   \<and> length ys - length it2 \<le> Suc (length xs - length it)"
proof (induction xs arbitrary: ys)
  case Nil
  then show ?case by (cases ys) auto
next
  case (Cons x xs)
  show ?case
  proof (cases ys)
    case Nil
    with Cons.prems show ?thesis by auto
  next
    case (Cons y ys')
    show ?thesis
    proof (cases "x = y")
      case True
      with Cons.prems Cons have "SequenceEqual_loop xs ys' = (b, it, it2)" by simp
      from Cons.IH [OF this] Cons show ?thesis by auto
    next
      case False
      with Cons.prems Cons show ?thesis by auto
    qed
  qed
qed

lemma SequenceEqual_loop_same: "SequenceEqual_loop xs xs = (True, [], [])"
  by (induction xs) auto

text \<open>
  Claim C4. \<^verbatim>\<open>SequenceEqual\<close> answers true exactly when the two sequences are the same
  list, that is when they have the same length and equal elements at every position. Equal
  sequences give true with both cursors exhausted, a strict prefix against the longer
  sequence gives false, two empty sequences give true. The comparison is lock-step: on
  return, the numbers of elements pulled from the two cursors differ by at most one.
\<close>

theorem SequenceEqual_lockstep:
  "fst (SequenceEqual \<lparr>Iterate = xs\<rparr> \<lparr>Iterate = ys\<rparr>) = (xs = ys)
   \<and> SequenceEqual \<lparr>Iterate = xs\<rparr> \<lparr>Iterate = xs\<rparr> = (True, [], [])
   \<and> fst (SequenceEqual \<lparr>Iterate = xs\<rparr> \<lparr>Iterate = xs @ y # ys\<rparr>) = False
   \<and> fst (SequenceEqual \<lparr>Iterate = []\<rparr> \<lparr>Iterate = []\<rparr>) = True
   \<and> fst (SequenceEqual \<lparr>Iterate = [VInt 1, VInt 2, VInt 3]\<rparr>
             \<lparr>Iterate = [VInt 1, VInt 2, VInt 3]\<rparr>) = True
   \<and> fst (SequenceEqual \<lparr>Iterate = [VInt 1, VInt 2]\<rparr>
             \<lparr>Iterate = [VInt 1, VInt 2, VInt 3]\<rparr>) = False
   \<and> (\<exists>b it it2. SequenceEqual \<lparr>Iterate = xs\<rparr> \<lparr>Iterate = ys\<rparr> = (b, it, it2)
        \<and> length it \<le> length xs \<and> length it2 \<le> length ys
        \<and> length xs - length it \<le> Suc (length ys - length it2)
        \<and> length ys - length it2 \<le> Suc (length xs - length it))"
proof -
  obtain b it it2 where r: "SequenceEqual_loop xs ys = (b, it, it2)"
    by (cases "SequenceEqual_loop xs ys") auto
  have e: "fst (SequenceEqual_loop xs (xs @ y # ys)) = False"
    by (simp add: SequenceEqual_loop_iff)
  have c1: "fst (SequenceEqual_loop [VInt 1, VInt 2, VInt 3] [VInt 1, VInt 2, VInt 3]) = True"
    by (simp add: SequenceEqual_loop_iff)
  have c2: "fst (SequenceEqual_loop [VInt 1, VInt 2] [VInt 1, VInt 2, VInt 3]) = False"
    by (simp add: SequenceEqual_loop_iff)
  from SequenceEqual_loop_step [OF r] r SequenceEqual_loop_iff [of xs ys] e c1 c2 show ?thesis
    by (simp add: SequenceEqual_def SequenceEqual_loop_same)
qed

section \<open>Properties of the sum\<close>

lemma SumInts_loop_conv:
  "map conv xs = map Inr vs \<Longrightarrow> SumInts_loop conv r xs = Inr (r + sum_list vs)"
proof (induction xs arbitrary: r vs)
  case Nil
  then show ?case by simp
next
  case (Cons x xs)
  then obtain v vs' where v: "vs = v # vs'" "conv x = Inr v" "map conv xs = map Inr vs'"
    by (cases vs) auto
  from Cons.IH [OF v(3)] show ?case
    by (simp add: v(1,2) add.assoc)
qed

lemma SumInts_conv:
  assumes "map (gic x) (x # xs) = map Inr vs"
  shows "SumInts gic \<lparr>Iterate = x # xs\<rparr> = Inr (sum_list vs)"
proof -
  from assms obtain v vs' where v: "vs = v # vs'" "gic x x = Inr v" "map (gic x) xs = map Inr vs'"
    by (cases vs) auto
  show ?thesis
    by (simp add: SumInts_def v(1,2) SumInts_loop_conv [OF v(3)])
qed

lemma widen_signed_value:
  "signed_value x = Some k \<Longrightarrow> widen_signed x = Inr (word_of_int k)"
  by (cases x) (auto simp: widen_signed_def scast_eq simp del: scast_id)

lemma map_widen_signed:
  "map signed_value xs = map Some ks \<Longrightarrow>
   map widen_signed xs = map Inr (map word_of_int ks)"
proof (induction xs arbitrary: ks)
  case Nil
  then show ?case by simp
next
  case (Cons x xs)
  then obtain k ks' where k: "ks = k # ks'" "signed_value x = Some k"
    "map signed_value xs = map Some ks'"
    by (cases ks) auto
  from Cons.IH [OF k(3)] show ?case
    by (simp add: k(1) widen_signed_value [OF k(2)])
qed

lemma sum_list_word_of_int:
  "sum_list (map word_of_int ks) = (word_of_int (sum_list ks) :: 64 word)"
  by (induction ks) simp_all

lemma SumInts_signed:
  assumes "map signed_value xs = map Some ks"
  shows "SumInts (\<lambda>_. widen_signed) \<lparr>Iterate = xs\<rparr> = Inr (word_of_int (sum_list ks))"
proof (cases xs)
  case Nil
  with assms show ?thesis by (simp add: SumInts_def)
next
  case (Cons x xs')
  from map_widen_signed [OF assms]
  have "map ((\<lambda>_. widen_signed) x) (x # xs') = map Inr (map word_of_int ks)"
    by (simp add: Cons)
  from SumInts_conv [OF this] show ?thesis
    by (simp add: Cons sum_list_word_of_int)
qed

lemma sint_in_range:
  "- (2 ^ 63) \<le> k \<Longrightarrow> k < 2 ^ 63 \<Longrightarrow> sint (word_of_int k :: 64 word) = k"
  by (simp add: sint_sbintrunc' signed_take_bit_int_eq_self)

text \<open>
  Claim C1. \<^verbatim>\<open>SumInts\<close> returns 0 for the empty sequence. On a non-empty sequence, when
  the converter chosen from the first element yields the \<^verbatim>\<open>int64\<close> values \<open>vs\<close> on the
  elements, it returns the sum of \<open>vs\<close>. With the converter of the signed-integer family
  that makes, for a sequence of signed integers of any widths with values \<open>ks\<close>, the sum of
  \<open>ks\<close> as an \<^verbatim>\<open>int64\<close>: the sum modulo \<open>2^64\<close>, and exactly the sum when that lies in the
  range of \<^verbatim>\<open>int64\<close>. The sequence 1, 2, 3 sums to 6, and an \<^verbatim>\<open>int8\<close> followed by an
  \<^verbatim>\<open>int64\<close> sums to the sign-extended first element plus the second.
\<close>

theorem SumInts_sum:
  "SumInts gic \<lparr>Iterate = []\<rparr> = Inr 0
   \<and> (map (gic x) (x # xs) = map Inr vs \<longrightarrow> SumInts gic \<lparr>Iterate = x # xs\<rparr> = Inr (sum_list vs))
   \<and> (map signed_value ys = map Some ks \<longrightarrow>
        SumInts (\<lambda>_. widen_signed) \<lparr>Iterate = ys\<rparr> = Inr (word_of_int (sum_list ks)))
   \<and> (map signed_value ys = map Some ks \<and> - (2 ^ 63) \<le> sum_list ks \<and> sum_list ks < 2 ^ 63 \<longrightarrow>
        (\<exists>r. SumInts (\<lambda>_. widen_signed) \<lparr>Iterate = ys\<rparr> = Inr r \<and> sint r = sum_list ks))
   \<and> SumInts (\<lambda>_. widen_signed) \<lparr>Iterate = [VInt 1, VInt 2, VInt 3]\<rparr> = Inr 6
   \<and> SumInts (\<lambda>_. widen_signed) \<lparr>Iterate = [VInt8 a, VInt64 b]\<rparr> = Inr (scast a + b)"
proof (intro conjI impI)
  show "SumInts gic \<lparr>Iterate = []\<rparr> = Inr 0" by (simp add: SumInts_def)
next
  assume "map (gic x) (x # xs) = map Inr vs"
  then show "SumInts gic \<lparr>Iterate = x # xs\<rparr> = Inr (sum_list vs)"
    by (rule SumInts_conv)
next
  assume "map signed_value ys = map Some ks"
  then show "SumInts (\<lambda>_. widen_signed) \<lparr>Iterate = ys\<rparr> = Inr (word_of_int (sum_list ks))"
    by (rule SumInts_signed)
next
  assume a: "map signed_value ys = map Some ks \<and> - (2 ^ 63) \<le> sum_list ks \<and> sum_list ks < 2 ^ 63"
  then have "SumInts (\<lambda>_. widen_signed) \<lparr>Iterate = ys\<rparr> = Inr (word_of_int (sum_list ks))"
    by (simp add: SumInts_signed)
  moreover from a have "sint (word_of_int (sum_list ks) :: 64 word) = sum_list ks"
    by (simp add: sint_in_range)
  ultimately show "\<exists>r. SumInts (\<lambda>_. widen_signed) \<lparr>Iterate = ys\<rparr> = Inr r \<and> sint r = sum_list ks"
    by simp
next
  show "SumInts (\<lambda>_. widen_signed) \<lparr>Iterate = [VInt 1, VInt 2, VInt 3]\<rparr> = Inr 6"
    by (simp add: SumInts_def widen_signed_def)
next
  show "SumInts (\<lambda>_. widen_signed) \<lparr>Iterate = [VInt8 a, VInt64 b]\<rparr> = Inr (scast a + b)"
    by (simp add: SumInts_def widen_signed_def)
qed

theorem SumInts_sum_witness:
  "SumInts (\<lambda>_. widen_signed) \<lparr>Iterate = [VInt8 (- 3), VInt64 10, VInt16 (- 1)]\<rparr> = Inr 6
   \<and> (\<exists>r. SumInts (\<lambda>_. widen_signed) \<lparr>Iterate = [VInt8 (- 3), VInt64 10, VInt16 (- 1)]\<rparr> = Inr r
          \<and> sint r = 6)
   \<and> SumInts (\<lambda>d i. case i of VUint8 w \<Rightarrow> Inr (ucast w) | _ \<Rightarrow> Inl InterfaceConversion)
        \<lparr>Iterate = [VUint8 200, VUint8 100]\<rparr> = Inr 300"
  using
    SumInts_sum [of "\<lambda>d i. case i of VUint8 w \<Rightarrow> Inr (ucast w) | _ \<Rightarrow> Inl InterfaceConversion"
      "VUint8 200" "[VUint8 100]" "[200, 100]"
      "[VInt8 (- 3), VInt64 10, VInt16 (- 1)]" "[- 3, 10, - 1]"]
  by simp

section \<open>Properties of the average\<close>









section \<open>Properties of the extrema\<close>

lemma Max_loop_snd: "snd (Max_loop c r xs) = []"
  by (induction xs arbitrary: r) auto

lemma Max_loop_snoc:
  "fst (Max_loop c r (xs @ [a])) =
     (if c a (fst (Max_loop c r xs)) > 0 then a else fst (Max_loop c r xs))"
  by (induction xs arbitrary: r) auto

lemma total_order_onD1:
  "total_order_on A c \<Longrightarrow> x \<in> A \<Longrightarrow> y \<in> A \<Longrightarrow> (c x y > 0) = (c y x < 0)"
proof -
  assume o: "total_order_on A c" and m: "x \<in> A" "y \<in> A"
  from o have "\<forall>x\<in>A. \<forall>y\<in>A. (c x y > 0) = (c y x < 0)"
    unfolding total_order_on_def by (elim conjE)
  then have "\<forall>y\<in>A. (c x y > 0) = (c y x < 0)"
    using m(1) by (rule bspec)
  then show ?thesis
    using m(2) by (rule bspec)
qed

lemma total_order_onD2:
  "total_order_on A c \<Longrightarrow> x \<in> A \<Longrightarrow> y \<in> A \<Longrightarrow> z \<in> A \<Longrightarrow> c x y \<le> 0 \<Longrightarrow> c y z \<le> 0
   \<Longrightarrow> c x z \<le> 0"
proof -
  assume o: "total_order_on A c" and m: "x \<in> A" "y \<in> A" "z \<in> A" and l: "c x y \<le> 0" "c y z \<le> 0"
  from o have "\<forall>x\<in>A. \<forall>y\<in>A. \<forall>z\<in>A. c x y \<le> 0 \<and> c y z \<le> 0 \<longrightarrow> c x z \<le> 0"
    unfolding total_order_on_def by (elim conjE)
  then have "\<forall>y\<in>A. \<forall>z\<in>A. c x y \<le> 0 \<and> c y z \<le> 0 \<longrightarrow> c x z \<le> 0"
    using m(1) by (rule bspec)
  then have "\<forall>z\<in>A. c x y \<le> 0 \<and> c y z \<le> 0 \<longrightarrow> c x z \<le> 0"
    using m(2) by (rule bspec)
  then have "c x y \<le> 0 \<and> c y z \<le> 0 \<longrightarrow> c x z \<le> 0"
    using m(3) by (rule bspec)
  with l show ?thesis by simp
qed

lemma order_flip:
  assumes "total_order_on A c" "x \<in> A" "y \<in> A" "\<not> c x y < 0"
  shows "c y x \<le> 0"
  using total_order_onD1 [OF assms(1) assms(3) assms(2)] assms(4) by arith

lemma order_refl:
  assumes "total_order_on A c" "x \<in> A"
  shows "c x x \<le> 0"
  using total_order_onD1 [OF assms(1) assms(2) assms(2)] by arith

lemma order_strict_trans1:
  assumes o: "total_order_on A c" and m: "x \<in> A" "y \<in> A" "z \<in> A"
    and xy: "c x y \<le> 0" and yz: "c z y > 0"
  shows "c x z < 0"
proof (rule ccontr)
  assume "\<not> c x z < 0"
  then have "c z x \<le> 0" by (rule order_flip [OF o m(1) m(3)])
  from total_order_onD2 [OF o m(3) m(1) m(2) this xy] yz show False by simp
qed

lemma Max_loop_first_max:
  assumes o: "total_order_on A c" and sub: "set (r # xs) \<subseteq> A"
  shows "\<exists>ys zs. r # xs = ys @ fst (Max_loop c r xs) # zs
           \<and> (\<forall>y\<in>set ys. c y (fst (Max_loop c r xs)) < 0)
           \<and> (\<forall>z\<in>set zs. c z (fst (Max_loop c r xs)) \<le> 0)"
  using sub
proof (induction xs rule: rev_induct)
  case Nil
  show ?case by (intro exI [of _ "[]"]) simp
next
  case (snoc a xs)
  let ?m = "fst (Max_loop c r xs)"
  from snoc.prems have sub': "set (r # xs) \<subseteq> A" and a: "a \<in> A" by simp_all
  from snoc.IH [OF sub'] obtain ys zs where d: "r # xs = ys @ ?m # zs"
    "\<forall>y\<in>set ys. c y ?m < 0" "\<forall>z\<in>set zs. c z ?m \<le> 0"
    by (elim exE conjE)
  have mem: "?m \<in> set (r # xs)" by (subst d(1)) simp
  with sub' have m: "?m \<in> A" by (rule subsetD)
  have below: "c y ?m \<le> 0" if y: "y \<in> set (r # xs)" for y
  proof -
    from y have "y \<in> set (ys @ ?m # zs)" by (simp only: d(1))
    then have "y \<in> set ys \<or> y = ?m \<or> y \<in> set zs" by auto
    then show ?thesis
    proof (elim disjE)
      assume "y \<in> set ys" with d(2) show ?thesis by force
    next
      assume "y = ?m" with order_refl [OF o m] show ?thesis by simp
    next
      assume "y \<in> set zs" with d(3) show ?thesis by simp
    qed
  qed
  show ?case
  proof (cases "c a ?m > 0")
    case True
    have "c y a < 0" if y: "y \<in> set (r # xs)" for y
    proof -
      from y sub' have "y \<in> A" by (rule subsetD [rotated])
      from order_strict_trans1 [OF o this m a below [OF y] True] show ?thesis .
    qed
    then have "\<forall>y\<in>set (r # xs). c y a < 0" by (rule ballI)
    moreover have "fst (Max_loop c r (xs @ [a])) = a" using True by (simp add: Max_loop_snoc)
    ultimately show ?thesis
      by (intro exI [of _ "r # xs"] exI [of _ "[]"]) simp
  next
    case False
    then have e: "fst (Max_loop c r (xs @ [a])) = ?m" by (simp add: Max_loop_snoc)
    have "r # xs @ [a] = ys @ ?m # (zs @ [a])" using d(1) by simp
    moreover have "\<forall>z\<in>set (zs @ [a]). c z ?m \<le> 0" using d(3) False by simp
    ultimately show ?thesis unfolding e using d(2) by (intro exI [of _ ys] exI [of _ "zs @ [a]"] conjI)
  qed
qed

lemma total_order_on_neg:
  assumes o: "total_order_on A c"
  shows "total_order_on A (\<lambda>a b. - c a b)"
  unfolding total_order_on_def
proof (intro conjI ballI impI)
  fix x y assume m: "x \<in> A" "y \<in> A"
  from total_order_onD1 [OF o m(2) m(1)] show "(0 < - c x y) = (- c y x < 0)" by arith
next
  fix x y z assume m: "x \<in> A" "y \<in> A" "z \<in> A" and l: "- c x y \<le> 0 \<and> - c y z \<le> 0"
  from l have "\<not> c y z < 0" "\<not> c x y < 0" by simp_all
  then have "c z y \<le> 0" "c y x \<le> 0"
    using order_flip [OF o m(2) m(3)] order_flip [OF o m(1) m(2)] by simp_all
  from total_order_onD2 [OF o m(3) m(2) m(1) this]
  have "c z x \<le> 0" .
  with total_order_onD1 [OF o m(3) m(1)] show "- c x z \<le> 0" by arith
qed

lemma Min_loop_Max_loop: "Min_loop c r xs = Max_loop (\<lambda>a b. - c a b) r xs"
  by (induction xs arbitrary: r) auto

lemma Min_loop_first_min:
  assumes o: "total_order_on A c" and sub: "set (r # xs) \<subseteq> A"
  shows "\<exists>ys zs. r # xs = ys @ fst (Min_loop c r xs) # zs
           \<and> (\<forall>y\<in>set ys. c y (fst (Min_loop c r xs)) > 0)
           \<and> (\<forall>z\<in>set zs. c z (fst (Min_loop c r xs)) \<ge> 0)"
  using Max_loop_first_max [OF total_order_on_neg [OF o] sub]
  by (simp add: Min_loop_Max_loop)

lemma compare_int_order:
  assumes "\<forall>x\<in>A. \<exists>a. x = VInt a"
  shows "total_order_on A compare_int"
  unfolding total_order_on_def
proof (intro conjI ballI impI)
  fix x y assume "x \<in> A" "y \<in> A"
  with assms obtain a b where "x = VInt a" "y = VInt b" by blast
  then show "(0 < compare_int x y) = (compare_int y x < 0)"
    by (simp add: compare_int_def)
next
  fix x y z assume "x \<in> A" "y \<in> A" "z \<in> A" and l: "compare_int x y \<le> 0 \<and> compare_int y z \<le> 0"
  with assms obtain a b c where "x = VInt a" "y = VInt b" "z = VInt c" by blast
  with l show "compare_int x z \<le> 0"
    by (simp add: compare_int_def split: if_splits)
qed

text \<open>
  Claim C3. \<^verbatim>\<open>Max\<close> and \<^verbatim>\<open>Min\<close> return \<^verbatim>\<open>nil\<close> for the empty sequence. For a
  non-empty sequence on whose elements the comparer chosen from the first element is a
  total order, \<^verbatim>\<open>Max\<close> returns an element of the sequence such that every earlier element
  is strictly below it and no later element is above it: a maximal element, and among equal
  maximal elements the first seen. \<^verbatim>\<open>Min\<close> is the mirror image. Both pull every element
  (the cursor is left exhausted). On 3, 1, 2 the maximum is 3 and the minimum is 1.
\<close>

theorem Max_Min_extrema:
  "Max_op gc \<lparr>Iterate = []\<rparr> = (VNil, [])
   \<and> Min_op gc \<lparr>Iterate = []\<rparr> = (VNil, [])
   \<and> (total_order_on (set (x # xs)) (gc x) \<longrightarrow>
        (\<exists>ys zs. x # xs = ys @ fst (Max_op gc \<lparr>Iterate = x # xs\<rparr>) # zs
            \<and> (\<forall>y\<in>set ys. gc x y (fst (Max_op gc \<lparr>Iterate = x # xs\<rparr>)) < 0)
            \<and> (\<forall>z\<in>set zs. gc x z (fst (Max_op gc \<lparr>Iterate = x # xs\<rparr>)) \<le> 0))
        \<and> (\<exists>ys zs. x # xs = ys @ fst (Min_op gc \<lparr>Iterate = x # xs\<rparr>) # zs
            \<and> (\<forall>y\<in>set ys. gc x y (fst (Min_op gc \<lparr>Iterate = x # xs\<rparr>)) > 0)
            \<and> (\<forall>z\<in>set zs. gc x z (fst (Min_op gc \<lparr>Iterate = x # xs\<rparr>)) \<ge> 0)))
   \<and> snd (Max_op gc \<lparr>Iterate = x # xs\<rparr>) = []
   \<and> snd (Min_op gc \<lparr>Iterate = x # xs\<rparr>) = []
   \<and> Max_op (\<lambda>_. compare_int) \<lparr>Iterate = [VInt 3, VInt 1, VInt 2]\<rparr> = (VInt 3, [])
   \<and> Min_op (\<lambda>_. compare_int) \<lparr>Iterate = [VInt 3, VInt 1, VInt 2]\<rparr> = (VInt 1, [])"
proof (intro conjI impI)
  assume o: "total_order_on (set (x # xs)) (gc x)"
  from Max_loop_first_max [OF o subset_refl]
  show "\<exists>ys zs. x # xs = ys @ fst (Max_op gc \<lparr>Iterate = x # xs\<rparr>) # zs
            \<and> (\<forall>y\<in>set ys. gc x y (fst (Max_op gc \<lparr>Iterate = x # xs\<rparr>)) < 0)
            \<and> (\<forall>z\<in>set zs. gc x z (fst (Max_op gc \<lparr>Iterate = x # xs\<rparr>)) \<le> 0)"
    by (simp add: Max_op_def)
  from Min_loop_first_min [OF o subset_refl]
  show "\<exists>ys zs. x # xs = ys @ fst (Min_op gc \<lparr>Iterate = x # xs\<rparr>) # zs
            \<and> (\<forall>y\<in>set ys. gc x y (fst (Min_op gc \<lparr>Iterate = x # xs\<rparr>)) > 0)
            \<and> (\<forall>z\<in>set zs. gc x z (fst (Min_op gc \<lparr>Iterate = x # xs\<rparr>)) \<ge> 0)"
    by (simp add: Min_op_def)
qed (simp_all add: Max_op_def Min_op_def Max_loop_snd Min_loop_Max_loop compare_int_def)

theorem Max_Min_extrema_witness:
  "total_order_on (set [VInt 3, VInt 1, VInt 3, VInt 1]) compare_int
   \<and> fst (Max_op (\<lambda>_. compare_int) \<lparr>Iterate = [VInt 3, VInt 1, VInt 3, VInt 1]\<rparr>) = VInt 3
   \<and> fst (Min_op (\<lambda>_. compare_int) \<lparr>Iterate = [VInt 3, VInt 1, VInt 3, VInt 1]\<rparr>) = VInt 1
   \<and> (\<exists>ys zs. [VInt 3, VInt 1, VInt 3, VInt 1] = ys @ VInt 3 # zs
        \<and> (\<forall>y\<in>set ys. compare_int y (VInt 3) < 0) \<and> (\<forall>z\<in>set zs. compare_int z (VInt 3) \<le> 0))
   \<and> (\<exists>ys zs. [VInt 3, VInt 1, VInt 3, VInt 1] = ys @ VInt 1 # zs
        \<and> (\<forall>y\<in>set ys. compare_int y (VInt 1) > 0) \<and> (\<forall>z\<in>set zs. compare_int z (VInt 1) \<ge> 0))"
proof -
  have o: "total_order_on (set [VInt 3, VInt 1, VInt 3, VInt 1]) compare_int"
    by (rule compare_int_order) simp
  have e: "fst (Max_op (\<lambda>_. compare_int) \<lparr>Iterate = [VInt 3, VInt 1, VInt 3, VInt 1]\<rparr>) = VInt 3"
    "fst (Min_op (\<lambda>_. compare_int) \<lparr>Iterate = [VInt 3, VInt 1, VInt 3, VInt 1]\<rparr>) = VInt 1"
    by (simp_all add: Max_op_def Min_op_def compare_int_def)
  from Max_Min_extrema [of "\<lambda>_. compare_int" "VInt 3" "[VInt 1, VInt 3, VInt 1]"] o
  show ?thesis unfolding e by simp
qed

section \<open>Properties of the materialisation into a slice\<close>

lemma grow_cap_done: "\<not> c < n \<Longrightarrow> grow_cap c n = Some c"
  by (subst grow_cap.simps) simp

lemma grow_cap_step: "c < n \<Longrightarrow> grow_cap c n = grow_cap (c * 2) n"
  by (subst grow_cap.simps) simp

lemma grow_cap_double: "0 < c \<Longrightarrow> grow_cap c (Suc c) = Some (2 * c)"
  by (simp add: grow_cap_step grow_cap_done mult.commute)

lemma grow_cap_terminates:
  "0 < c \<Longrightarrow> \<exists>c'. grow_cap c n = Some c' \<and> n \<le> c' \<and> c \<le> c' \<and> (c < n \<longrightarrow> 2 * c \<le> c')"
proof (induction "n - c" arbitrary: c rule: less_induct)
  case less
  show ?case
  proof (cases "c < n")
    case False
    then show ?thesis by (simp add: grow_cap_done)
  next
    case True
    with less.prems have d: "n - c * 2 < n - c" "0 < c * 2" by simp_all
    from less.hyps [OF d] obtain c' where c': "grow_cap (c * 2) n = Some c'" "n \<le> c'" "c * 2 \<le> c'"
      by (elim exE conjE)
    with True show ?thesis by (simp add: grow_cap_step)
  qed
qed

lemma grow_reuse:
  "Len s + extra \<le> Cap s \<Longrightarrow> grow mem s extra = Some (Inr (mem, s\<lparr>Len := Len s + extra\<rparr>))"
  by (simp add: grow_def Slice_def)

lemma Copy_fresh:
  assumes v: "valid_slice mem s" and n: "Len s \<le> n" and c: "Len s \<le> c"
  shows "Copy (mem @ [replicate c (zero_value (elemType s))]) (fresh_slice mem s n c) s
         = mem @ [fresh_array mem s c]"
proof -
  from v have a: "arr s < length mem" by (simp add: valid_slice_def)
  have m: "min n (Len s) = Len s" using n by simp
  have "(mem @ [replicate c (zero_value (elemType s))]) ! arr s = mem ! arr s"
    using a by (simp add: nth_append)
  then show ?thesis
    by (simp add: Copy_def fresh_slice_def fresh_array_def m Let_def)
qed

lemma grow_realloc:
  assumes v: "valid_slice mem s" and g: "Cap s < Len s + extra"
    and c: "(if Cap s = 0 then Some extra else grow_cap (Cap s) (Len s + extra)) = Some c"
    and le: "Len s + extra \<le> c"
  shows "grow mem s extra
         = Some (Inr (mem @ [fresh_array mem s c], fresh_slice mem s (Len s + extra) c))"
proof -
  have "Copy (mem @ [replicate c (zero_value (elemType s))]) (fresh_slice mem s (Len s + extra) c) s
        = mem @ [fresh_array mem s c]"
    using v le by (intro Copy_fresh) simp_all
  then show ?thesis
    using g c le by (simp add: grow_def MakeSlice_def Let_def fresh_slice_def)
qed

lemma length_fresh_array:
  "valid_slice mem s \<Longrightarrow> Len s \<le> c \<Longrightarrow> length (fresh_array mem s c) = c"
  by (simp add: fresh_array_def valid_slice_def)

lemma grow_spec:
  assumes v: "valid_slice mem s"
  shows "\<exists>mem' s'. grow mem s extra = Some (Inr (mem', s'))
           \<and> Len s' = Len s + extra \<and> elemType s' = elemType s \<and> valid_slice mem' s'
           \<and> take (Len s) (mem' ! arr s') = take (Len s) (mem ! arr s)
           \<and> (Len s + extra \<le> Cap s \<longrightarrow> mem' = mem \<and> arr s' = arr s \<and> Cap s' = Cap s)
           \<and> (Cap s < Len s + extra \<longrightarrow>
                (\<exists>new. mem' = mem @ [new] \<and> length new = Cap s') \<and> arr s' = length mem
                \<and> 2 * Cap s \<le> Cap s' \<and> Len s + extra \<le> Cap s')"
proof (cases "Len s + extra \<le> Cap s")
  case True
  with v show ?thesis by (simp add: grow_reuse valid_slice_def)
next
  case False
  then have g: "Cap s < Len s + extra" by simp
  from v have l: "Len s \<le> Cap s" by (simp add: valid_slice_def)
  obtain c where c: "(if Cap s = 0 then Some extra else grow_cap (Cap s) (Len s + extra)) = Some c"
    and le: "Len s + extra \<le> c" and d: "2 * Cap s \<le> c"
  proof (cases "Cap s = 0")
    case True
    with l that [of extra] show ?thesis by simp
  next
    case False
    then have "0 < Cap s" by simp
    from grow_cap_terminates [OF this, of "Len s + extra"] g that False show ?thesis
      by auto
  qed
  from le have lc: "Len s \<le> c" by simp
  have n: "(mem @ [fresh_array mem s c]) ! length mem = fresh_array mem s c" by simp
  have t: "take (Len s) (fresh_array mem s c) = take (Len s) (mem ! arr s)"
    using v l by (simp add: fresh_array_def valid_slice_def)
  show ?thesis
    using g le d t n
    by (simp add: grow_realloc [OF v g c le] fresh_slice_def valid_slice_def
        length_fresh_array [OF v lc])
qed

lemma take_Suc_update:
  "i < length xs \<Longrightarrow> take (Suc i) (xs[i := v]) = take i xs @ [v]"
  by (simp add: take_Suc_conv_app_nth)

lemma length_nth_write:
  "length (mem[a := (mem ! a)[i := v]] ! b) = length (mem ! b)"
proof (cases "b = a")
  case False
  then show ?thesis by simp
next
  case True
  show ?thesis
  proof (cases "a < length mem")
    case True
    with \<open>b = a\<close> show ?thesis by simp
  next
    case False
    then have "mem[a := (mem ! a)[i := v]] = mem" by (simp add: list_update_beyond)
    then show ?thesis by simp
  qed
qed

lemma ToSlice_write:
  assumes v: "valid_slice mem s" and i: "index < Len s" and a: "assignable item (elemType s)"
  shows "ToSlice_loop mem s index (item # rest)
         = ToSlice_loop (mem[arr s := (mem ! arr s)[index := item]]) s (Suc index) rest"
  using i a by (simp add: IndexSet_def)

lemma valid_slice_write:
  "valid_slice mem s \<Longrightarrow> valid_slice (mem[arr s := (mem ! arr s)[i := v]]) s"
  by (simp add: valid_slice_def)

lemma take_write:
  assumes v: "valid_slice mem s" and i: "index < Len s"
  shows "take (Suc index) (mem[arr s := (mem ! arr s)[index := item]] ! arr s)
         = take index (mem ! arr s) @ [item]"
proof -
  from v i have "arr s < length mem" "index < length (mem ! arr s)"
    by (simp_all add: valid_slice_def)
  then show ?thesis by (simp add: take_Suc_update)
qed

lemma ToSlice_step:
  assumes v: "valid_slice mem s" and i: "index \<le> Len s" and a: "assignable item (elemType s)"
  shows "\<exists>mem2 s1. ToSlice_loop mem s index (item # rest) = ToSlice_loop mem2 s1 (Suc index) rest
     \<and> valid_slice mem2 s1 \<and> Len s1 = max (Len s) (Suc index) \<and> elemType s1 = elemType s
     \<and> take (Suc index) (mem2 ! arr s1) = take index (mem ! arr s) @ [item]
     \<and> (\<forall>b<length mem. length (mem2 ! b) = length (mem ! b))
     \<and> ((Suc index \<le> Cap s \<and> length mem2 = length mem \<and> arr s1 = arr s \<and> Cap s1 = Cap s)
        \<or> (Cap s < Suc index \<and> length mem2 = Suc (length mem) \<and> arr s1 = length mem
            \<and> Cap s1 = length (mem2 ! length mem) \<and> 2 * Cap s \<le> Cap s1))"
proof (cases "index < Len s")
  case True
  let ?mem2 = "mem[arr s := (mem ! arr s)[index := item]]"
  from v True have c: "Suc index \<le> Cap s" by (simp add: valid_slice_def)
  have m: "max (Len s) (Suc index) = Len s" using True by simp
  show ?thesis
    using ToSlice_write [OF v True a, of rest] valid_slice_write [OF v, of index item]
      take_write [OF v True, of item] c
    by (intro exI [of _ ?mem2] exI [of _ s]) (simp add: m length_nth_write)
next
  case False
  with i have e: "index = Len s" by simp
  from grow_spec [OF v, of 1] obtain mem1 s1 where
    g: "grow mem s 1 = Some (Inr (mem1, s1))" and l1: "Len s1 = Len s + 1"
    and t1: "elemType s1 = elemType s" and v1: "valid_slice mem1 s1"
    and k1: "take (Len s) (mem1 ! arr s1) = take (Len s) (mem ! arr s)"
    and r1: "Len s + 1 \<le> Cap s \<longrightarrow> mem1 = mem \<and> arr s1 = arr s \<and> Cap s1 = Cap s"
    and r2: "Cap s < Len s + 1 \<longrightarrow> (\<exists>new. mem1 = mem @ [new] \<and> length new = Cap s1)
                \<and> arr s1 = length mem \<and> 2 * Cap s \<le> Cap s1 \<and> Len s + 1 \<le> Cap s1"
    by (elim exE conjE)
  let ?mem2 = "mem1[arr s1 := (mem1 ! arr s1)[index := item]]"
  have i1: "index < Len s1" using e l1 by simp
  have a1: "assignable item (elemType s1)" using a t1 by simp
  have step: "ToSlice_loop mem s index (item # rest) = ToSlice_loop ?mem2 s1 (Suc index) rest"
    using g e i1 a1 by (simp add: IndexSet_def)
  have tk: "take (Suc index) (?mem2 ! arr s1) = take index (mem ! arr s) @ [item]"
    using take_write [OF v1 i1, of item] k1 e by simp
  have m: "Len s1 = max (Len s) (Suc index)" using e l1 by simp
  have old: "\<forall>b<length mem. length (?mem2 ! b) = length (mem ! b)"
  proof (intro allI impI)
    fix b assume b: "b < length mem"
    have "length (?mem2 ! b) = length (mem1 ! b)" by (rule length_nth_write)
    also have "mem1 ! b = mem ! b"
    proof (cases "Len s + 1 \<le> Cap s")
      case True
      with r1 show ?thesis by simp
    next
      case False
      with r2 obtain new where "mem1 = mem @ [new]" by auto
      with b show ?thesis by (simp add: nth_append)
    qed
    finally show "length (?mem2 ! b) = length (mem ! b)" .
  qed
  have alt: "(Suc index \<le> Cap s \<and> length ?mem2 = length mem \<and> arr s1 = arr s \<and> Cap s1 = Cap s)
        \<or> (Cap s < Suc index \<and> length ?mem2 = Suc (length mem) \<and> arr s1 = length mem
            \<and> Cap s1 = length (?mem2 ! length mem) \<and> 2 * Cap s \<le> Cap s1)"
  proof (cases "Len s + 1 \<le> Cap s")
    case True
    with r1 e show ?thesis by simp
  next
    case False
    with r2 obtain new where q: "mem1 = mem @ [new]" "length new = Cap s1"
      "arr s1 = length mem" "2 * Cap s \<le> Cap s1" by auto
    from q(1) have len1: "length mem1 = Suc (length mem)" by simp
    have "length (?mem2 ! length mem) = length (mem1 ! length mem)" by (rule length_nth_write)
    with q(1,2) have "Cap s1 = length (?mem2 ! length mem)" by simp
    with False e q(3,4) len1 show ?thesis by simp
  qed
  show ?thesis
    using step valid_slice_write [OF v1, of index item] m t1 tk old alt
    by (intro exI [of _ ?mem2] exI [of _ s1] conjI) assumption+
qed

lemma ToSlice_loop_spec:
  assumes "valid_slice mem s" "index \<le> Len s" "\<forall>x\<in>set xs. assignable x (elemType s)"
  shows "\<exists>mem' s'. ToSlice_loop mem s index xs = Some (Inr (mem', s', index + length xs))
     \<and> valid_slice mem' s' \<and> Len s' = max (Len s) (index + length xs)
     \<and> take (index + length xs) (mem' ! arr s') = take index (mem ! arr s) @ xs
     \<and> length mem \<le> length mem'
     \<and> (\<forall>b<length mem. length (mem' ! b) = length (mem ! b))
     \<and> (index + length xs \<le> Cap s \<longrightarrow>
           length mem' = length mem \<and> arr s' = arr s \<and> Cap s' = Cap s)
     \<and> (Cap s < index + length xs \<longrightarrow> length mem < length mem' \<and> arr s' = length mem' - 1)
     \<and> doubling (Cap s # new_caps mem mem')
     \<and> Cap s' = last (Cap s # new_caps mem mem')"
  using assms
proof (induction xs arbitrary: mem s index)
  case Nil
  then have "index \<le> Cap s" by (simp add: valid_slice_def)
  with Nil show ?case
    by (intro exI [of _ mem] exI [of _ s]) (simp add: doubling_def new_caps_def)
next
  case (Cons item rest)
  from Cons.prems have a: "assignable item (elemType s)"
    and ar: "\<forall>x\<in>set rest. assignable x (elemType s)" by simp_all
  from ToSlice_step [OF Cons.prems(1,2) a, of rest] obtain mem2 s1 where
    step: "ToSlice_loop mem s index (item # rest) = ToSlice_loop mem2 s1 (Suc index) rest"
    and v1: "valid_slice mem2 s1" and l1: "Len s1 = max (Len s) (Suc index)"
    and t1: "elemType s1 = elemType s"
    and k1: "take (Suc index) (mem2 ! arr s1) = take index (mem ! arr s) @ [item]"
    and o1: "\<forall>b<length mem. length (mem2 ! b) = length (mem ! b)"
    and alt: "(Suc index \<le> Cap s \<and> length mem2 = length mem \<and> arr s1 = arr s \<and> Cap s1 = Cap s)
        \<or> (Cap s < Suc index \<and> length mem2 = Suc (length mem) \<and> arr s1 = length mem
            \<and> Cap s1 = length (mem2 ! length mem) \<and> 2 * Cap s \<le> Cap s1)"
    by (elim exE conjE)
  have i1: "Suc index \<le> Len s1" using l1 by simp
  have ar1: "\<forall>x\<in>set rest. assignable x (elemType s1)" using ar t1 by simp
  from Cons.IH [OF v1 i1 ar1] obtain mem' s' where
    r: "ToSlice_loop mem2 s1 (Suc index) rest = Some (Inr (mem', s', Suc index + length rest))"
    and v': "valid_slice mem' s'" and l': "Len s' = max (Len s1) (Suc index + length rest)"
    and k': "take (Suc index + length rest) (mem' ! arr s') = take (Suc index) (mem2 ! arr s1) @ rest"
    and g': "length mem2 \<le> length mem'"
    and o': "\<forall>b<length mem2. length (mem' ! b) = length (mem2 ! b)"
    and u': "Suc index + length rest \<le> Cap s1 \<longrightarrow>
           length mem' = length mem2 \<and> arr s' = arr s1 \<and> Cap s' = Cap s1"
    and n': "Cap s1 < Suc index + length rest \<longrightarrow> length mem2 < length mem' \<and> arr s' = length mem' - 1"
    and d': "doubling (Cap s1 # new_caps mem2 mem')"
    and c': "Cap s' = last (Cap s1 # new_caps mem2 mem')"
    by (elim exE conjE)
  have e1: "ToSlice_loop mem s index (item # rest)
            = Some (Inr (mem', s', index + length (item # rest)))"
    using step r by simp
  have e2: "Len s' = max (Len s) (index + length (item # rest))"
    using l' l1 by simp
  have e3: "take (index + length (item # rest)) (mem' ! arr s') = take index (mem ! arr s) @ item # rest"
    using k' k1 by simp
  from alt have lm: "length mem \<le> length mem2" by auto
  with g' have e4: "length mem \<le> length mem'" by simp
  have e5: "\<forall>b<length mem. length (mem' ! b) = length (mem ! b)"
  proof (intro allI impI)
    fix b assume b: "b < length mem"
    with lm have "b < length mem2" by simp
    with o' have "length (mem' ! b) = length (mem2 ! b)" by simp
    with o1 b show "length (mem' ! b) = length (mem ! b)" by simp
  qed
  from alt show ?case
  proof (elim disjE conjE)
    assume q: "Suc index \<le> Cap s" "length mem2 = length mem" "arr s1 = arr s" "Cap s1 = Cap s"
    have nc: "new_caps mem mem' = new_caps mem2 mem'" using q(2) by (simp add: new_caps_def)
    have e6: "index + length (item # rest) \<le> Cap s \<longrightarrow>
           length mem' = length mem \<and> arr s' = arr s \<and> Cap s' = Cap s"
      using u' q by simp
    have e7: "Cap s < index + length (item # rest) \<longrightarrow>
           length mem < length mem' \<and> arr s' = length mem' - 1"
      using n' q by simp
    have e8: "doubling (Cap s # new_caps mem mem')" using d' q(4) nc by simp
    have e9: "Cap s' = last (Cap s # new_caps mem mem')" using c' q(4) nc by simp
    from e1 v' e2 e3 e4 e5 e6 e7 e8 e9 show ?thesis
      by (intro exI [of _ mem'] exI [of _ s'] conjI)
  next
    assume q: "Cap s < Suc index" "length mem2 = Suc (length mem)" "arr s1 = length mem"
      "Cap s1 = length (mem2 ! length mem)" "2 * Cap s \<le> Cap s1"
    from g' q(2) have lt: "length mem < length mem'" by simp
    have "length (mem' ! length mem) = length (mem2 ! length mem)"
      using o' q(2) by simp
    with q(4) have cl: "length (mem' ! length mem) = Cap s1" by simp
    have "drop (length mem) mem' = (mem' ! length mem) # drop (Suc (length mem)) mem'"
      using lt by (simp add: Cons_nth_drop_Suc)
    then have nc: "new_caps mem mem' = Cap s1 # new_caps mem2 mem'"
      using cl q(2) by (simp add: new_caps_def)
    have e6: "index + length (item # rest) \<le> Cap s \<longrightarrow>
           length mem' = length mem \<and> arr s' = arr s \<and> Cap s' = Cap s"
      using q(1) by simp
    have "arr s' = length mem' - 1"
    proof (cases "Suc index + length rest \<le> Cap s1")
      case True
      with u' q(2,3) show ?thesis by simp
    next
      case False
      with n' show ?thesis by simp
    qed
    with lt have e7: "Cap s < index + length (item # rest) \<longrightarrow>
           length mem < length mem' \<and> arr s' = length mem' - 1" by simp
    have e8: "doubling (Cap s # new_caps mem mem')"
      using d' q(5) by (simp add: nc doubling_def)
    have e9: "Cap s' = last (Cap s # new_caps mem mem')" using c' by (simp add: nc)
    from e1 v' e2 e3 e4 e5 e6 e7 e8 e9 show ?thesis
      by (intro exI [of _ mem'] exI [of _ s'] conjI)
  qed
qed

lemma ToSlice_spec:
  assumes v: "valid_slice mem s" and a: "\<forall>x\<in>set xs. assignable x (elemType s)"
  shows "\<exists>mem' s'. ToSlice \<lparr>Iterate = xs\<rparr> mem s = Some (Inr (mem', s'))
       \<and> Len s' = length xs
       \<and> take (length xs) (mem' ! arr s') = xs
       \<and> valid_slice mem' s'
       \<and> (length xs \<le> Cap s \<longrightarrow> length mem' = length mem \<and> arr s' = arr s \<and> Cap s' = Cap s)
       \<and> (Cap s < length xs \<longrightarrow> length mem < length mem' \<and> arr s' = length mem' - 1)
       \<and> doubling (Cap s # new_caps mem mem')
       \<and> Cap s' = last (Cap s # new_caps mem mem')"
proof -
  from ToSlice_loop_spec [OF v _ a, of 0] obtain mem' s' where
    r: "ToSlice_loop mem s 0 xs = Some (Inr (mem', s', length xs))"
    and v': "valid_slice mem' s'" and l': "Len s' = max (Len s) (length xs)"
    and k': "take (length xs) (mem' ! arr s') = xs"
    and u': "length xs \<le> Cap s \<longrightarrow> length mem' = length mem \<and> arr s' = arr s \<and> Cap s' = Cap s"
    and n': "Cap s < length xs \<longrightarrow> length mem < length mem' \<and> arr s' = length mem' - 1"
    and d': "doubling (Cap s # new_caps mem mem')"
    and c': "Cap s' = last (Cap s # new_caps mem mem')"
    by auto
  let ?s = "s'\<lparr>Len := length xs\<rparr>"
  from v' l' have le: "length xs \<le> Cap s'" by (simp add: valid_slice_def)
  then have e1: "ToSlice \<lparr>Iterate = xs\<rparr> mem s = Some (Inr (mem', ?s))"
    using r by (simp add: ToSlice_def Slice_def)
  have e2: "valid_slice mem' ?s" using v' le by (simp add: valid_slice_def)
  show ?thesis
    using e1 e2 k' u' n' d' c'
    by (intro exI [of _ mem'] exI [of _ ?s]) simp
qed

text \<open>
  Claim C5. Let the destination be a valid slice and let every element of the sequence be
  assignable to its element type. Then \<^verbatim>\<open>ToSlice\<close> returns, the destination has length
  exactly the number \<open>N\<close> of elements, whatever its initial length and capacity, and its first
  \<open>N\<close> positions hold the elements in sequence order. When \<open>N\<close> is at most the initial
  capacity nothing is allocated: the destination keeps its backing array and capacity.
  Otherwise the destination ends in the array allocated last, and every allocated array has
  at least twice the capacity of the one before it, starting from the initial capacity.
  \<^verbatim>\<open>grow\<close> itself returns for every \<open>extra\<close>, reslices in place when the capacity suffices
  and otherwise allocates at least double the capacity, keeping the old elements. A
  destination of capacity 2 receiving one element ends with length 1; a destination of
  capacity 0 receiving five elements goes through the capacities 1, 2, 4, 8 and ends with
  length 5.
\<close>

theorem ToSlice_grows_and_trims:
  "(valid_slice mem s \<and> (\<forall>x\<in>set xs. assignable x (elemType s)) \<longrightarrow>
      (\<exists>mem' s'. ToSlice \<lparr>Iterate = xs\<rparr> mem s = Some (Inr (mem', s'))
         \<and> Len s' = length xs
         \<and> take (length xs) (mem' ! arr s') = xs
         \<and> valid_slice mem' s'
         \<and> (length xs \<le> Cap s \<longrightarrow>
               length mem' = length mem \<and> arr s' = arr s \<and> Cap s' = Cap s)
         \<and> (Cap s < length xs \<longrightarrow> length mem < length mem' \<and> arr s' = length mem' - 1)
         \<and> doubling (Cap s # new_caps mem mem')
         \<and> Cap s' = last (Cap s # new_caps mem mem')))
   \<and> (valid_slice mem s \<longrightarrow>
      (\<exists>mem' s'. grow mem s extra = Some (Inr (mem', s'))
         \<and> Len s' = Len s + extra
         \<and> valid_slice mem' s'
         \<and> take (Len s) (mem' ! arr s') = take (Len s) (mem ! arr s)
         \<and> (Len s + extra \<le> Cap s \<longrightarrow> mem' = mem \<and> arr s' = arr s \<and> Cap s' = Cap s)
         \<and> (Cap s < Len s + extra \<longrightarrow>
               (\<exists>new. mem' = mem @ [new] \<and> length new = Cap s') \<and> arr s' = length mem
               \<and> 2 * Cap s \<le> Cap s' \<and> Len s + extra \<le> Cap s')))
   \<and> ToSlice \<lparr>Iterate = [VInt 7]\<rparr> [[VInt 0, VInt 0]]
         \<lparr>arr = 0, Len = 2, Cap = 2, elemType = TInt\<rparr>
       = Some (Inr ([[VInt 7, VInt 0]], \<lparr>arr = 0, Len = 1, Cap = 2, elemType = TInt\<rparr>))
   \<and> ToSlice \<lparr>Iterate = [VInt 1, VInt 2, VInt 3, VInt 4, VInt 5]\<rparr> [[]]
         \<lparr>arr = 0, Len = 0, Cap = 0, elemType = TInt\<rparr>
       = Some (Inr ([[], [VInt 1], [VInt 1, VInt 2], [VInt 1, VInt 2, VInt 3, VInt 4],
                     [VInt 1, VInt 2, VInt 3, VInt 4, VInt 5, VInt 0, VInt 0, VInt 0]],
                    \<lparr>arr = 4, Len = 5, Cap = 8, elemType = TInt\<rparr>))"
proof (intro conjI impI)
  assume "valid_slice mem s \<and> (\<forall>x\<in>set xs. assignable x (elemType s))"
  then have v: "valid_slice mem s" and a: "\<forall>x\<in>set xs. assignable x (elemType s)"
    by simp_all
  from ToSlice_spec [OF v a]
  show "\<exists>mem' s'. ToSlice \<lparr>Iterate = xs\<rparr> mem s = Some (Inr (mem', s'))
         \<and> Len s' = length xs
         \<and> take (length xs) (mem' ! arr s') = xs
         \<and> valid_slice mem' s'
         \<and> (length xs \<le> Cap s \<longrightarrow>
               length mem' = length mem \<and> arr s' = arr s \<and> Cap s' = Cap s)
         \<and> (Cap s < length xs \<longrightarrow> length mem < length mem' \<and> arr s' = length mem' - 1)
         \<and> doubling (Cap s # new_caps mem mem')
         \<and> Cap s' = last (Cap s # new_caps mem mem')" .
next
  assume v: "valid_slice mem s"
  from grow_spec [OF v, of extra] obtain mem' s' where
    g: "grow mem s extra = Some (Inr (mem', s'))" "Len s' = Len s + extra" "valid_slice mem' s'"
      "take (Len s) (mem' ! arr s') = take (Len s) (mem ! arr s)"
      "Len s + extra \<le> Cap s \<longrightarrow> mem' = mem \<and> arr s' = arr s \<and> Cap s' = Cap s"
      "Cap s < Len s + extra \<longrightarrow>
               (\<exists>new. mem' = mem @ [new] \<and> length new = Cap s') \<and> arr s' = length mem
               \<and> 2 * Cap s \<le> Cap s' \<and> Len s + extra \<le> Cap s'"
    by (elim exE conjE)
  then show "\<exists>mem' s'. grow mem s extra = Some (Inr (mem', s'))
         \<and> Len s' = Len s + extra
         \<and> valid_slice mem' s'
         \<and> take (Len s) (mem' ! arr s') = take (Len s) (mem ! arr s)
         \<and> (Len s + extra \<le> Cap s \<longrightarrow> mem' = mem \<and> arr s' = arr s \<and> Cap s' = Cap s)
         \<and> (Cap s < Len s + extra \<longrightarrow>
               (\<exists>new. mem' = mem @ [new] \<and> length new = Cap s') \<and> arr s' = length mem
               \<and> 2 * Cap s \<le> Cap s' \<and> Len s + extra \<le> Cap s')"
    by (intro exI [of _ mem'] exI [of _ s'] conjI)
next
  show "ToSlice \<lparr>Iterate = [VInt 7]\<rparr> [[VInt 0, VInt 0]]
         \<lparr>arr = 0, Len = 2, Cap = 2, elemType = TInt\<rparr>
       = Some (Inr ([[VInt 7, VInt 0]], \<lparr>arr = 0, Len = 1, Cap = 2, elemType = TInt\<rparr>))"
    by (simp add: ToSlice_def IndexSet_def assignable_def Slice_def)
next
  show "ToSlice \<lparr>Iterate = [VInt 1, VInt 2, VInt 3, VInt 4, VInt 5]\<rparr> [[]]
         \<lparr>arr = 0, Len = 0, Cap = 0, elemType = TInt\<rparr>
       = Some (Inr ([[], [VInt 1], [VInt 1, VInt 2], [VInt 1, VInt 2, VInt 3, VInt 4],
                     [VInt 1, VInt 2, VInt 3, VInt 4, VInt 5, VInt 0, VInt 0, VInt 0]],
                    \<lparr>arr = 4, Len = 5, Cap = 8, elemType = TInt\<rparr>))"
    by (simp add: ToSlice_def IndexSet_def assignable_def Slice_def grow_def MakeSlice_def
        Copy_def grow_cap_step grow_cap_done Let_def eval_nat_numeral)
qed

theorem ToSlice_grows_and_trims_witness:
  "valid_slice [[VString ''a'', VString ''b'']] \<lparr>arr = 0, Len = 1, Cap = 2, elemType = TString\<rparr>
   \<and> (\<exists>mem' s'.
        ToSlice \<lparr>Iterate = [VString ''x'', VString ''y'', VString ''z'']\<rparr>
          [[VString ''a'', VString ''b'']] \<lparr>arr = 0, Len = 1, Cap = 2, elemType = TString\<rparr>
          = Some (Inr (mem', s'))
        \<and> Len s' = 3 \<and> take 3 (mem' ! arr s') = [VString ''x'', VString ''y'', VString ''z'']
        \<and> 1 < length mem' \<and> arr s' = length mem' - 1
        \<and> doubling (2 # new_caps [[VString ''a'', VString ''b'']] mem'))
   \<and> (\<exists>mem' s'.
        grow [[VString ''a'', VString ''b'']] \<lparr>arr = 0, Len = 1, Cap = 2, elemType = TString\<rparr> 4
          = Some (Inr (mem', s'))
        \<and> Len s' = 5 \<and> arr s' = 1 \<and> 4 \<le> Cap s' \<and> 5 \<le> Cap s')"
proof -
  let ?mem = "[[VString ''a'', VString ''b'']]"
  let ?s = "\<lparr>arr = 0, Len = 1, Cap = 2, elemType = TString\<rparr>"
  let ?xs = "[VString ''x'', VString ''y'', VString ''z'']"
  note T = ToSlice_grows_and_trims [of ?mem ?s ?xs 4]
  have v: "valid_slice ?mem ?s" by (simp add: valid_slice_def)
  have a: "\<forall>x\<in>set ?xs. assignable x (elemType ?s)" by (simp add: assignable_def)
  from T [THEN conjunct1, THEN mp, OF conjI [OF v a]] obtain mem' s' where
    r: "ToSlice \<lparr>Iterate = ?xs\<rparr> ?mem ?s = Some (Inr (mem', s'))"
      "Len s' = length ?xs" "take (length ?xs) (mem' ! arr s') = ?xs"
      "Cap ?s < length ?xs \<longrightarrow> length ?mem < length mem' \<and> arr s' = length mem' - 1"
      "doubling (Cap ?s # new_caps ?mem mem')"
    by (elim exE conjE)
  from T [THEN conjunct2, THEN conjunct1, THEN mp, OF v] obtain mem2 s2 where
    g: "grow ?mem ?s 4 = Some (Inr (mem2, s2))" "Len s2 = Len ?s + 4"
      "Cap ?s < Len ?s + 4 \<longrightarrow>
               (\<exists>new. mem2 = ?mem @ [new] \<and> length new = Cap s2) \<and> arr s2 = length ?mem
               \<and> 2 * Cap ?s \<le> Cap s2 \<and> Len ?s + 4 \<le> Cap s2"
    by (elim exE conjE)
  have "\<exists>mem' s'. ToSlice \<lparr>Iterate = ?xs\<rparr> ?mem ?s = Some (Inr (mem', s'))
        \<and> Len s' = 3 \<and> take 3 (mem' ! arr s') = ?xs
        \<and> 1 < length mem' \<and> arr s' = length mem' - 1
        \<and> doubling (2 # new_caps ?mem mem')"
    using r by (intro exI [of _ mem'] exI [of _ s']) (simp add: numeral_3_eq_3)
  moreover have "\<exists>mem' s'. grow ?mem ?s 4 = Some (Inr (mem', s'))
        \<and> Len s' = 5 \<and> arr s' = 1 \<and> 4 \<le> Cap s' \<and> 5 \<le> Cap s'"
    using g by (intro exI [of _ mem2] exI [of _ s2]) simp
  ultimately show ?thesis using v by (intro conjI)
qed

section \<open>Properties of the output to a channel\<close>

lemma ToChannel_loop_sends:
  "\<not> closed ch \<Longrightarrow> ToChannel_loop ch xs = Inr (ch @ map Send xs)"
proof (induction xs arbitrary: ch)
  case Nil
  show ?case by simp
next
  case (Cons x xs)
  from Cons.prems have "\<not> closed (ch @ [Send x])" by (simp add: closed_def)
  from Cons.IH [OF this] Cons.prems show ?case by (simp add: send_def)
qed

lemma not_closed_sends: "\<not> closed ch \<Longrightarrow> \<not> closed (ch @ map Send xs)"
  by (auto simp: closed_def)

text \<open>
  Claim C9. On a channel that is not closed, \<^verbatim>\<open>ToChannel\<close> sends the \<open>N\<close> elements of the
  sequence in sequence order and then closes the channel: the operations it adds to the
  channel's history are the \<open>N\<close> sends followed by one close, so the channel is closed
  exactly once, after the last element. For the empty sequence the only operation is the
  close.
\<close>

theorem ToChannel_sends_then_closes:
  "(\<not> closed ch \<longrightarrow>
      ToChannel \<lparr>Iterate = xs\<rparr> ch = Inr (ch @ map Send xs @ [Close])
      \<and> length (filter (\<lambda>e. e = Close) (ch @ map Send xs @ [Close])) = 1)
   \<and> (\<not> closed ch \<longrightarrow> ToChannel \<lparr>Iterate = []\<rparr> ch = Inr (ch @ [Close]))"
proof (intro conjI impI)
  assume o: "\<not> closed ch"
  from not_closed_sends [OF o, of xs]
  show "ToChannel \<lparr>Iterate = xs\<rparr> ch = Inr (ch @ map Send xs @ [Close])"
    by (simp add: ToChannel_def ToChannel_loop_sends [OF o] close_def)
  from o have "filter (\<lambda>e. e = Close) ch = []" "filter (\<lambda>e. e = Close) (map Send xs) = []"
    by (auto simp: closed_def filter_empty_conv)
  then show "length (filter (\<lambda>e. e = Close) (ch @ map Send xs @ [Close])) = 1"
    by simp
  from o show "ToChannel \<lparr>Iterate = []\<rparr> ch = Inr (ch @ [Close])"
    by (simp add: ToChannel_def close_def)
qed

theorem ToChannel_sends_then_closes_witness:
  "\<not> closed [Send (VInt 0)]
   \<and> ToChannel \<lparr>Iterate = [VInt 1, VInt 2, VInt 3]\<rparr> [Send (VInt 0)]
       = Inr [Send (VInt 0), Send (VInt 1), Send (VInt 2), Send (VInt 3), Close]
   \<and> ToChannel \<lparr>Iterate = []\<rparr> [] = Inr [Close]"
proof -
  have o: "\<not> closed [Send (VInt 0)]" "\<not> closed []" by (simp_all add: closed_def)
  from ToChannel_sends_then_closes [of "[Send (VInt 0)]" "[VInt 1, VInt 2, VInt 3]"]
    ToChannel_sends_then_closes [of "[]" "[]"] o
  show ?thesis by simp
qed

section \<open>Properties of the typed variants\<close>

lemma validator_iff:
  "simpleParamValidator [genericType] [Exact TBool] f
   \<longleftrightarrow> length (TypesIn f) = 1 \<and> TypesOut f = [TBool]"
  by (cases "TypesIn f"; cases "TypesOut f")
     (auto simp: simpleParamValidator_def conforms_def list_all2_Cons1)

lemma newGenericFunc_iff:
  "newGenericFunc m n fn (simpleParamValidator [genericType] [Exact TBool]) = Inr g
   \<longleftrightarrow> fn = Func g \<and> length (TypesIn g) = 1 \<and> TypesOut g = [TBool]"
  by (cases fn) (auto simp: newGenericFunc_def validator_iff)

lemma predicateFunc_computes:
  "computes f T p \<Longrightarrow> assignable x T \<Longrightarrow> predicateFunc f x = returns p x"
  by (simp add: computes_def predicateFunc_def Call_def assert_bool_def returns_def)

lemma All_loop_cong:
  "\<forall>x\<in>set xs. P x = P' x \<Longrightarrow> All_loop P xs = All_loop P' xs"
  by (induction xs) (auto split: sum.splits)

lemma AnyWith_loop_cong:
  "\<forall>x\<in>set xs. P x = P' x \<Longrightarrow> AnyWith_loop P xs = AnyWith_loop P' xs"
  by (induction xs) (auto split: sum.splits)

lemma FirstWith_loop_cong:
  "\<forall>x\<in>set xs. P x = P' x \<Longrightarrow> FirstWith_loop P xs = FirstWith_loop P' xs"
  by (induction xs) (auto split: sum.splits)

lemma SingleWith_loop_cong:
  "\<forall>x\<in>set xs. P x = P' x \<Longrightarrow> SingleWith_loop P found r xs = SingleWith_loop P' found r xs"
  by (induction xs arbitrary: found r) (auto split: sum.splits)

lemma computes_valid:
  "computes f T p \<Longrightarrow>
   newGenericFunc m n (Func f) (simpleParamValidator [genericType] [Exact TBool]) = Inr f"
  by (simp add: newGenericFunc_iff computes_def)

lemma typed_delegates:
  assumes "fn = Func g" "length (TypesIn g) = 1" "TypesOut g = [TBool]"
  shows "AllT q fn = All_op q (predicateFunc g)"
    and "AnyWithT q fn = AnyWith q (predicateFunc g)"
    and "FirstWithT q fn = FirstWith q (predicateFunc g)"
    and "SingleWithT q fn = SingleWith q (predicateFunc g)"
proof -
  have "newGenericFunc m n fn (simpleParamValidator [genericType] [Exact TBool]) = Inr g" for m n
    using assms by (simp add: newGenericFunc_iff)
  then show "AllT q fn = All_op q (predicateFunc g)"
    and "AnyWithT q fn = AnyWith q (predicateFunc g)"
    and "FirstWithT q fn = FirstWith q (predicateFunc g)"
    and "SingleWithT q fn = SingleWith q (predicateFunc g)"
    by (simp_all add: AllT_def AnyWithT_def FirstWithT_def SingleWithT_def)
qed

lemma typed_equivalent:
  assumes c: "computes f T p" and a: "\<forall>x\<in>set (Iterate q). assignable x T"
  shows "AllT q (Func f) = All_op q (returns p)"
    and "AnyWithT q (Func f) = AnyWith q (returns p)"
    and "FirstWithT q (Func f) = FirstWith q (returns p)"
    and "SingleWithT q (Func f) = SingleWith q (returns p)"
proof -
  from c have v: "length (TypesIn f) = 1" "TypesOut f = [TBool]" by (simp_all add: computes_def)
  have e: "\<forall>x\<in>set (Iterate q). predicateFunc f x = returns p x"
    using a predicateFunc_computes [OF c] by simp
  show "AllT q (Func f) = All_op q (returns p)"
    using All_loop_cong [OF e] by (simp add: typed_delegates(1) [OF refl v] All_op_def)
  show "AnyWithT q (Func f) = AnyWith q (returns p)"
    using AnyWith_loop_cong [OF e] by (simp add: typed_delegates(2) [OF refl v] AnyWith_def)
  show "FirstWithT q (Func f) = FirstWith q (returns p)"
    using FirstWith_loop_cong [OF e] by (simp add: typed_delegates(3) [OF refl v] FirstWith_def)
  show "SingleWithT q (Func f) = SingleWith q (returns p)"
    using SingleWith_loop_cong [OF e] by (simp add: typed_delegates(4) [OF refl v] SingleWith_def)
qed

lemma typed_not_a_function:
  "AllT q (Value v) = (Inl (GenericFuncError (NotAFunction ''AllT'' ''predicateFn'')), Iterate q)"
  "AnyWithT q (Value v)
     = (Inl (GenericFuncError (NotAFunction ''AnyWithT'' ''predicateFn'')), Iterate q)"
  "FirstWithT q (Value v)
     = (Inl (GenericFuncError (NotAFunction ''FirstWithT'' ''predicateFn'')), Iterate q)"
  "SingleWithT q (Value v)
     = (Inl (GenericFuncError (NotAFunction ''SingleWithT'' ''predicateFn'')), Iterate q)"
  by (simp_all add: AllT_def AnyWithT_def FirstWithT_def SingleWithT_def newGenericFunc_def)

lemma typed_invalid_signature:
  assumes "\<not> (length (TypesIn g) = 1 \<and> TypesOut g = [TBool])"
  shows "AllT q (Func g)
       = (Inl (GenericFuncError (InvalidSignature ''AllT'' ''predicateFn'')), Iterate q)"
    and "AnyWithT q (Func g)
       = (Inl (GenericFuncError (InvalidSignature ''AnyWithT'' ''predicateFn'')), Iterate q)"
    and "FirstWithT q (Func g)
       = (Inl (GenericFuncError (InvalidSignature ''FirstWithT'' ''predicateFn'')), Iterate q)"
    and "SingleWithT q (Func g)
       = (Inl (GenericFuncError (InvalidSignature ''SingleWithT'' ''predicateFn'')), Iterate q)"
proof -
  from assms have "\<not> simpleParamValidator [genericType] [Exact TBool] g"
    by (simp only: validator_iff not_False_eq_True)
  then show "AllT q (Func g)
       = (Inl (GenericFuncError (InvalidSignature ''AllT'' ''predicateFn'')), Iterate q)"
    and "AnyWithT q (Func g)
       = (Inl (GenericFuncError (InvalidSignature ''AnyWithT'' ''predicateFn'')), Iterate q)"
    and "FirstWithT q (Func g)
       = (Inl (GenericFuncError (InvalidSignature ''FirstWithT'' ''predicateFn'')), Iterate q)"
    and "SingleWithT q (Func g)
       = (Inl (GenericFuncError (InvalidSignature ''SingleWithT'' ''predicateFn'')), Iterate q)"
    by (simp_all add: AllT_def AnyWithT_def FirstWithT_def SingleWithT_def newGenericFunc_def)
qed

text \<open>
  Claim C7. A callable is valid for a typed operator when it is a function with one
  parameter and the single result type \<^verbatim>\<open>bool\<close>. Given a valid callable \<open>g\<close>, each typed
  operator returns exactly what its untyped counterpart returns on the predicate wrapped
  around \<open>g\<close>; and when \<open>g\<close> is a \<^verbatim>\<open>func(T) bool\<close> computing \<open>p\<close> and the elements have type
  \<open>T\<close>, that is what the untyped operator returns on \<open>p\<close> itself. Given anything else (a value
  that is not a function, or a function of another shape) the typed operator panics with
  the construction error that names the operator and the parameter, and no element of the
  sequence has been pulled.
\<close>

theorem typed_variants_refine:
  "(fn = Func g \<and> length (TypesIn g) = 1 \<and> TypesOut g = [TBool] \<longrightarrow>
      AllT q fn = All_op q (predicateFunc g)
      \<and> AnyWithT q fn = AnyWith q (predicateFunc g)
      \<and> FirstWithT q fn = FirstWith q (predicateFunc g)
      \<and> SingleWithT q fn = SingleWith q (predicateFunc g))
   \<and> (computes f T p \<and> (\<forall>x\<in>set (Iterate q). assignable x T) \<longrightarrow>
      AllT q (Func f) = All_op q (returns p)
      \<and> AnyWithT q (Func f) = AnyWith q (returns p)
      \<and> FirstWithT q (Func f) = FirstWith q (returns p)
      \<and> SingleWithT q (Func f) = SingleWith q (returns p))
   \<and> AllT q (Value v)
       = (Inl (GenericFuncError (NotAFunction ''AllT'' ''predicateFn'')), Iterate q)
   \<and> AnyWithT q (Value v)
       = (Inl (GenericFuncError (NotAFunction ''AnyWithT'' ''predicateFn'')), Iterate q)
   \<and> FirstWithT q (Value v)
       = (Inl (GenericFuncError (NotAFunction ''FirstWithT'' ''predicateFn'')), Iterate q)
   \<and> SingleWithT q (Value v)
       = (Inl (GenericFuncError (NotAFunction ''SingleWithT'' ''predicateFn'')), Iterate q)
   \<and> (\<not> (length (TypesIn h) = 1 \<and> TypesOut h = [TBool]) \<longrightarrow>
      AllT q (Func h)
        = (Inl (GenericFuncError (InvalidSignature ''AllT'' ''predicateFn'')), Iterate q)
      \<and> AnyWithT q (Func h)
        = (Inl (GenericFuncError (InvalidSignature ''AnyWithT'' ''predicateFn'')), Iterate q)
      \<and> FirstWithT q (Func h)
        = (Inl (GenericFuncError (InvalidSignature ''FirstWithT'' ''predicateFn'')), Iterate q)
      \<and> SingleWithT q (Func h)
        = (Inl (GenericFuncError (InvalidSignature ''SingleWithT'' ''predicateFn'')), Iterate q))"
proof (intro conjI impI)
  assume "fn = Func g \<and> length (TypesIn g) = 1 \<and> TypesOut g = [TBool]"
  then have v: "fn = Func g" "length (TypesIn g) = 1" "TypesOut g = [TBool]" by simp_all
  show "AllT q fn = All_op q (predicateFunc g)" by (rule typed_delegates(1) [OF v])
  show "AnyWithT q fn = AnyWith q (predicateFunc g)" by (rule typed_delegates(2) [OF v])
  show "FirstWithT q fn = FirstWith q (predicateFunc g)" by (rule typed_delegates(3) [OF v])
  show "SingleWithT q fn = SingleWith q (predicateFunc g)" by (rule typed_delegates(4) [OF v])
next
  assume "computes f T p \<and> (\<forall>x\<in>set (Iterate q). assignable x T)"
  then have c: "computes f T p" and a: "\<forall>x\<in>set (Iterate q). assignable x T" by simp_all
  show "AllT q (Func f) = All_op q (returns p)" by (rule typed_equivalent(1) [OF c a])
  show "AnyWithT q (Func f) = AnyWith q (returns p)" by (rule typed_equivalent(2) [OF c a])
  show "FirstWithT q (Func f) = FirstWith q (returns p)" by (rule typed_equivalent(3) [OF c a])
  show "SingleWithT q (Func f) = SingleWith q (returns p)" by (rule typed_equivalent(4) [OF c a])
next
  assume n: "\<not> (length (TypesIn h) = 1 \<and> TypesOut h = [TBool])"
  show "AllT q (Func h)
        = (Inl (GenericFuncError (InvalidSignature ''AllT'' ''predicateFn'')), Iterate q)"
    by (rule typed_invalid_signature(1) [OF n])
  show "AnyWithT q (Func h)
        = (Inl (GenericFuncError (InvalidSignature ''AnyWithT'' ''predicateFn'')), Iterate q)"
    by (rule typed_invalid_signature(2) [OF n])
  show "FirstWithT q (Func h)
        = (Inl (GenericFuncError (InvalidSignature ''FirstWithT'' ''predicateFn'')), Iterate q)"
    by (rule typed_invalid_signature(3) [OF n])
  show "SingleWithT q (Func h)
        = (Inl (GenericFuncError (InvalidSignature ''SingleWithT'' ''predicateFn'')), Iterate q)"
    by (rule typed_invalid_signature(4) [OF n])
qed (rule typed_not_a_function)+

theorem typed_variants_refine_witness:
  "computes \<lparr>TypesIn = [TInt], TypesOut = [TBool],
             FnValue = (\<lambda>args. Inr [VBool (args = [VInt 1])])\<rparr> TInt (\<lambda>x. x = VInt 1)
   \<and> AllT \<lparr>Iterate = [VInt 1, VInt 2, VInt 1]\<rparr>
        (Func \<lparr>TypesIn = [TInt], TypesOut = [TBool],
               FnValue = (\<lambda>args. Inr [VBool (args = [VInt 1])])\<rparr>)
      = (Inr False, [VInt 1])
   \<and> FirstWithT \<lparr>Iterate = [VInt 1, VInt 2, VInt 1]\<rparr>
        (Func \<lparr>TypesIn = [TInt], TypesOut = [TBool],
               FnValue = (\<lambda>args. Inr [VBool (args = [VInt 1])])\<rparr>)
      = (Inr (VInt 1), [VInt 2, VInt 1])
   \<and> AllT \<lparr>Iterate = [VInt 1, VInt 2, VInt 1]\<rparr>
        (Func \<lparr>TypesIn = [TInt, TInt], TypesOut = [TBool],
               FnValue = (\<lambda>args. Inr [VBool True])\<rparr>)
      = (Inl (GenericFuncError (InvalidSignature ''AllT'' ''predicateFn'')),
         [VInt 1, VInt 2, VInt 1])"
proof -
  let ?f = "\<lparr>TypesIn = [TInt], TypesOut = [TBool],
             FnValue = (\<lambda>args. Inr [VBool (args = [VInt 1])])\<rparr>"
  let ?h = "\<lparr>TypesIn = [TInt, TInt], TypesOut = [TBool],
             FnValue = (\<lambda>args. Inr [VBool True])\<rparr>"
  let ?q = "\<lparr>Iterate = [VInt 1, VInt 2, VInt 1]\<rparr>"
  note T = typed_variants_refine [of "Func ?f" ?f ?q ?f TInt "\<lambda>x. x = VInt 1" VNil ?h]
  have c: "computes ?f TInt (\<lambda>x. x = VInt 1)" by (simp add: computes_def)
  have a: "\<forall>x\<in>set (Iterate ?q). assignable x TInt" by (simp add: assignable_def)
  have n: "\<not> (length (TypesIn ?h) = 1 \<and> TypesOut ?h = [TBool])" by simp
  from T c a have "AllT ?q (Func ?f) = All_op ?q (returns (\<lambda>x. x = VInt 1))"
    "FirstWithT ?q (Func ?f) = FirstWith ?q (returns (\<lambda>x. x = VInt 1))"
    by blast+
  moreover from T n have "AllT ?q (Func ?h)
      = (Inl (GenericFuncError (InvalidSignature ''AllT'' ''predicateFn'')), Iterate ?q)"
    by blast
  ultimately show ?thesis
    using c by (simp add: All_op_def FirstWith_def returns_def)
qed

end
